theory Spec2Isabelle
  imports Main "HOL-Library.AList" "HOL-Library.Word"
begin

unbundle bit_operations_syntax

section \<open>The rate limiter\<close>

text \<open>
  The class \<open>RateLimiter\<close> keeps a JavaScript \<open>Map\<close> from keys to entries. A \<open>Map\<close>
  holds every key once and iterates in insertion order, so the store is an association
  list: \<open>store.get\<close> is \<^const>\<open>map_of\<close>, \<open>store.set\<close> is \<^const>\<open>AList.update\<close>
  (an existing key keeps its place, a new key goes to the end) and \<open>store.delete\<close> is
  \<^const>\<open>AList.delete\<close>. Times are the integer milliseconds of \<open>Date.now()\<close>; the
  window and the budget are integers. The clock is read once at the start of every
  method, so the time read is an argument of the method's model, and the timer that
  fires the sweep is a call of \<open>cleanup\<close> at the time it fires. The field \<open>resetTime\<close>
  of the result of \<open>isAllowed\<close> is \<open>resultResetTime\<close> here, apart from the field of
  the entry.
\<close>

record RateLimitEntry =
  count :: int
  resetTime :: int

record RateLimitResult =
  allowed :: bool
  resultResetTime :: int
  remaining :: int

record RateLimiter =
  windowMs :: int
  maxRequests :: int
  store :: "(string \<times> RateLimitEntry) list"

definition newRateLimiter :: "int \<Rightarrow> int \<Rightarrow> RateLimiter" where
  "newRateLimiter w n = \<lparr>windowMs = w, maxRequests = n, store = []\<rparr>"

text \<open>
  The loop of \<open>cleanup\<close> walks the entries and deletes from the store each key whose
  entry has expired. Deleting the entry under the iterator does not disturb the
  iteration of a \<open>Map\<close>, so the loop walks the entries the store had on entry.
\<close>

fun cleanup_loop ::
  "int \<Rightarrow> (string \<times> RateLimitEntry) list \<Rightarrow> (string \<times> RateLimitEntry) list
    \<Rightarrow> (string \<times> RateLimitEntry) list" where
  "cleanup_loop now [] st = st"
| "cleanup_loop now ((key, entry) # rest) st =
     cleanup_loop now rest (if now \<ge> resetTime entry then AList.delete key st else st)"

definition cleanup :: "int \<Rightarrow> RateLimiter \<Rightarrow> RateLimiter" where
  "cleanup now rl = rl\<lparr>store := cleanup_loop now (store rl) (store rl)\<rparr>"

definition isAllowed :: "int \<Rightarrow> string \<Rightarrow> RateLimiter \<Rightarrow> RateLimitResult \<times> RateLimiter" where
  "isAllowed now key rl =
     (case map_of (store rl) key of
        None \<Rightarrow>
          (let newEntry = \<lparr>count = 1, resetTime = now + windowMs rl\<rparr> in
           (\<lparr>allowed = True, resultResetTime = resetTime newEntry,
             remaining = maxRequests rl - 1\<rparr>,
            rl\<lparr>store := AList.update key newEntry (store rl)\<rparr>))
      | Some entry \<Rightarrow>
          if now \<ge> resetTime entry then
            (let newEntry = \<lparr>count = 1, resetTime = now + windowMs rl\<rparr> in
             (\<lparr>allowed = True, resultResetTime = resetTime newEntry,
               remaining = maxRequests rl - 1\<rparr>,
              rl\<lparr>store := AList.update key newEntry (store rl)\<rparr>))
          else if count entry \<ge> maxRequests rl then
            (\<lparr>allowed = False, resultResetTime = resetTime entry, remaining = 0\<rparr>, rl)
          else
            (let entry' = entry\<lparr>count := count entry + 1\<rparr> in
             (\<lparr>allowed = True, resultResetTime = resetTime entry',
               remaining = maxRequests rl - count entry'\<rparr>,
              rl\<lparr>store := AList.update key entry' (store rl)\<rparr>)))"

definition reset :: "string \<Rightarrow> RateLimiter \<Rightarrow> RateLimiter" where
  "reset key rl = rl\<lparr>store := AList.delete key (store rl)\<rparr>"

text \<open>
  A call of one of the three methods, with the time the clock shows when it is made,
  and the run of a sequence of calls, which collects what the calls of \<open>isAllowed\<close>
  return, each with the key it was asked about.
\<close>

datatype call = IsAllowed int string | Reset string | Cleanup int

fun exec :: "call \<Rightarrow> RateLimiter \<Rightarrow> (string \<times> RateLimitResult) list \<times> RateLimiter" where
  "exec (IsAllowed now key) rl =
     ([(key, fst (isAllowed now key rl))], snd (isAllowed now key rl))"
| "exec (Reset key) rl = ([], reset key rl)"
| "exec (Cleanup now) rl = ([], cleanup now rl)"

fun run :: "call list \<Rightarrow> RateLimiter \<Rightarrow> (string \<times> RateLimitResult) list \<times> RateLimiter" where
  "run [] rl = ([], rl)"
| "run (c # cs) rl =
     (fst (exec c rl) @ fst (run cs (snd (exec c rl))), snd (run cs (snd (exec c rl))))"

definition results_for :: "string \<Rightarrow> call list \<Rightarrow> RateLimiter \<Rightarrow> RateLimitResult list" where
  "results_for key cs rl = map snd (filter (\<lambda>p. fst p = key) (fst (run cs rl)))"

text \<open>The store of a \<open>Map\<close> holds every key once.\<close>

definition wf_store :: "RateLimiter \<Rightarrow> bool" where
  "wf_store rl = distinct (map fst (store rl))"

text \<open>
  A call that leaves the window of \<open>key\<close> alone, where the window ends at \<open>r\<close>: a
  request for \<open>key\<close> or a sweep is made before \<open>r\<close>, a reset is for another key, and
  a request for another key is made at any time.
\<close>

fun within_window :: "string \<Rightarrow> int \<Rightarrow> call \<Rightarrow> bool" where
  "within_window key r (IsAllowed now k) = (k \<noteq> key \<or> now < r)"
| "within_window key r (Reset k) = (k \<noteq> key)"
| "within_window key r (Cleanup now) = (now < r)"

text \<open>A call that is not made before the time \<open>t\<close>; \<open>reset\<close> does not read the clock.\<close>

fun not_before :: "int \<Rightarrow> call \<Rightarrow> bool" where
  "not_before t (IsAllowed now k) = (t \<le> now)"
| "not_before t (Reset k) = True"
| "not_before t (Cleanup now) = (t \<le> now)"

text \<open>
  An entry that \<open>isAllowed\<close> treats as absent at the time \<open>t\<close>, and two limiters that
  differ only in such entries.
\<close>

definition absent_or_expired :: "int \<Rightarrow> RateLimitEntry option \<Rightarrow> bool" where
  "absent_or_expired t x = (case x of None \<Rightarrow> True | Some e \<Rightarrow> resetTime e \<le> t)"

definition sweep_equiv :: "int \<Rightarrow> RateLimiter \<Rightarrow> RateLimiter \<Rightarrow> bool" where
  "sweep_equiv t rl rl' \<longleftrightarrow>
     windowMs rl = windowMs rl' \<and> maxRequests rl = maxRequests rl' \<and>
     (\<forall>k. map_of (store rl) k = map_of (store rl') k \<or>
          absent_or_expired t (map_of (store rl) k) \<and> absent_or_expired t (map_of (store rl') k))"

text \<open>
  A limiter with a window of a minute and a budget of two, in which the key \<open>a\<close> has
  used its budget and the entry of the key \<open>b\<close> expires at 500 ms.
\<close>

definition limiter_ab :: RateLimiter where
  "limiter_ab = \<lparr>windowMs = 60000, maxRequests = 2,
     store = [(''a'', \<lparr>count = 2, resetTime = 61000\<rparr>),
              (''b'', \<lparr>count = 1, resetTime = 500\<rparr>)]\<rparr>"

section \<open>The client address\<close>

text \<open>
  \<open>getClientIP\<close> reads three headers of the request with \<open>request.headers.get\<close>,
  which returns \<open>null\<close> for a header the request does not have and the value of the
  header otherwise; the value may be the empty string. A header value is a byte string,
  so its characters are the \<^typ>\<open>char\<close> of HOL. The request is the function that
  \<open>headers.get\<close> computes.
\<close>

record NextRequest =
  headers :: "string \<Rightarrow> string option"

datatype js_error = TypeError

text \<open>
  \<open>String.prototype.split\<close> with a separator of one character: the pieces between
  the separators, one piece more than there are separators.
\<close>

fun split :: "char \<Rightarrow> string \<Rightarrow> string list" where
  "split sep [] = [[]]"
| "split sep (c # cs) =
     (if c = sep then [] # split sep cs
      else (case split sep cs of [] \<Rightarrow> [[c]] | p # ps \<Rightarrow> (c # p) # ps))"

text \<open>
  \<open>String.prototype.trim\<close> removes white space and line terminators from both ends.
  Among the characters below 256 these are tab, line feed, vertical tab, form feed,
  carriage return, space and the no-break space.
\<close>

definition is_whitespace :: "char \<Rightarrow> bool" where
  "is_whitespace c \<longleftrightarrow>
     c \<in> set [CHR 0x09, CHR 0x0A, CHR 0x0B, CHR 0x0C, CHR 0x0D, CHR 0x20, CHR 0xA0]"

definition trim :: "string \<Rightarrow> string" where
  "trim s = rev (dropWhile is_whitespace (rev (dropWhile is_whitespace s)))"

text \<open>
  The test \<open>if (v)\<close> on a value that is a string or \<open>null\<close> succeeds when the value
  is a string that is not empty.
\<close>

definition truthy :: "string option \<Rightarrow> string option" where
  "truthy v = (case v of None \<Rightarrow> None | Some s \<Rightarrow> if s = [] then None else Some s)"

text \<open>
  Reading the element 0 of an empty array gives \<open>undefined\<close>, and calling \<open>trim\<close> on
  it raises a \<open>TypeError\<close>.
\<close>

definition getClientIP :: "NextRequest \<Rightarrow> js_error + string" where
  "getClientIP request =
     (let forwardedFor = headers request ''x-forwarded-for'';
          realIP = headers request ''x-real-ip'';
          cfConnectingIP = headers request ''cf-connecting-ip''
      in case truthy forwardedFor of
           Some ff \<Rightarrow>
             (case split (CHR '','') ff of [] \<Rightarrow> Inl TypeError | p # ps \<Rightarrow> Inr (trim p))
         | None \<Rightarrow>
             (case truthy realIP of
                Some rip \<Rightarrow> Inr (trim rip)
              | None \<Rightarrow>
                  (case truthy cfConnectingIP of
                     Some cf \<Rightarrow> Inr (trim cf)
                   | None \<Rightarrow> Inr ''unknown'')))"

text \<open>
  The precedence in the words of the specification: the first entry of
  \<open>x-forwarded-for\<close> when that header is present, otherwise \<open>x-real-ip\<close>, otherwise
  \<open>cf-connecting-ip\<close>, otherwise the sentinel.
\<close>

definition getClientIP_spec :: "NextRequest \<Rightarrow> string" where
  "getClientIP_spec request =
     (case headers request ''x-forwarded-for'' of
        Some ff \<Rightarrow> trim (takeWhile (\<lambda>c. c \<noteq> CHR '','') ff)
      | None \<Rightarrow>
          (case headers request ''x-real-ip'' of
             Some rip \<Rightarrow> trim rip
           | None \<Rightarrow>
               (case headers request ''cf-connecting-ip'' of
                  Some cf \<Rightarrow> trim cf
                | None \<Rightarrow> ''unknown'')))"

text \<open>
  Requests: one with the three headers, one whose \<open>x-forwarded-for\<close> is empty, and
  one with no header.
\<close>

definition request_all :: NextRequest where
  "request_all = \<lparr>headers = [''x-forwarded-for'' \<mapsto> '' 203.0.113.9 , 10.0.0.1'',
     ''x-real-ip'' \<mapsto> ''10.0.0.7'', ''cf-connecting-ip'' \<mapsto> ''198.51.100.4'']\<rparr>"

definition request_empty_forwarded :: NextRequest where
  "request_empty_forwarded = \<lparr>headers = [''x-forwarded-for'' \<mapsto> [],
     ''x-real-ip'' \<mapsto> ''10.0.0.7'']\<rparr>"

definition request_none :: NextRequest where
  "request_none = \<lparr>headers = Map.empty\<rparr>"

section \<open>Base32\<close>

type_synonym byte = "8 word"

text \<open>
  The bits of a byte, the most significant first; the number a list of bits writes in
  binary; a list cut into groups of \<open>n\<close>, the last one shorter when the length is not a
  multiple of \<open>n\<close>; a list filled up on the right.
\<close>

definition bits_of_byte :: "byte \<Rightarrow> bool list" where
  "bits_of_byte b = map (bit b) [7, 6, 5, 4, 3, 2, 1, 0]"

definition nat_of_bits :: "bool list \<Rightarrow> nat" where
  "nat_of_bits bs = foldl (\<lambda>n b. 2 * n + (if b then 1 else 0)) 0 bs"

fun groups_of :: "nat \<Rightarrow> 'a list \<Rightarrow> 'a list list" where
  "groups_of n xs = (if n = 0 \<or> xs = [] then [] else take n xs # groups_of n (drop n xs))"

declare groups_of.simps [simp del]

definition pad_right :: "nat \<Rightarrow> 'a \<Rightarrow> 'a list \<Rightarrow> 'a list" where
  "pad_right n x xs = xs @ replicate (n - length xs) x"

text \<open>
  Modelled from the spec: the alphabet of \<open>encodeBase32\<close>, which is not among the
  sources. The specification and the test of the encoder ask for lower case: the
  letters \<open>a\<close> to \<open>z\<close>, then the digits \<open>2\<close> to \<open>7\<close>.
\<close>

definition base32_alphabet :: string where
  "base32_alphabet = ''abcdefghijklmnopqrstuvwxyz234567''"

text \<open>
  Modelled from the spec: \<open>encodeBase32\<close> of \<open>utils/crypto\<close> is not among the
  sources; only its test is. The specification and the test ask for the base32
  encoding with no padding: the bits of the bytes in groups of five, the last group
  filled with zero bits, each group a character of the alphabet.
\<close>

definition encodeBase32 :: "byte list \<Rightarrow> string" where
  "encodeBase32 bytes =
     map (\<lambda>g. base32_alphabet ! nat_of_bits (pad_right 5 False g))
       (groups_of 5 (concat (map bits_of_byte bytes)))"

text \<open>
  Modelled from the spec: the value of a character of a base32 secret, for the decoder,
  which is not among the sources. A letter counts in either case, since the
  specification shows the secret in upper case and the encoder writes lower case; a
  character outside the alphabet has no value.
\<close>

definition base32_value :: "char \<Rightarrow> nat option" where
  "base32_value c =
     (let n = (of_char c :: nat) in
      if 97 \<le> n \<and> n \<le> 122 then Some (n - 97)
      else if 65 \<le> n \<and> n \<le> 90 then Some (n - 65)
      else if 50 \<le> n \<and> n \<le> 55 then Some (n - 24)
      else None)"

definition bits_of_value :: "nat \<Rightarrow> bool list" where
  "bits_of_value v = map (bit v) [4, 3, 2, 1, 0]"

text \<open>
  Modelled from the spec: the decoder of the base32 secret of the TOTP engine is not
  among the sources. A character with no value makes the input malformed; the five
  bits of each character are put in a row and read in bytes, and the bits left over
  after the last whole byte are dropped.
\<close>

definition decodeBase32 :: "string \<Rightarrow> byte list option" where
  "decodeBase32 s =
     map_option
       (\<lambda>vs. map (\<lambda>g. of_nat (nat_of_bits g))
          (filter (\<lambda>g. length g = 8) (groups_of 8 (concat (map bits_of_value vs)))))
       (those (map base32_value s))"

section \<open>The keyed hash\<close>

text \<open>
  The keyed hash of the TOTP engine is not among the sources. The specification takes
  it as a primitive, so the engine below takes it as an argument: a function of the
  key and the message. The specification asks for the published standard of
  time-based one-time passwords, whose keyed hash is HMAC with SHA-1; \<open>sha1\<close> and
  \<open>hmac_sha1\<close> below are that primitive.
\<close>

type_synonym keyed_hash = "byte list \<Rightarrow> byte list \<Rightarrow> byte list"

text \<open>
  Modelled from the spec: the words of SHA-1, which is not among the sources. A word
  has 32 bits and is read from and written to bytes with the most significant byte
  first, as the counter of 64 bits is.
\<close>

definition rotl :: "nat \<Rightarrow> 32 word \<Rightarrow> 32 word" where
  "rotl n w = push_bit n w OR drop_bit (32 - n) w"

definition word_of_bytes :: "byte list \<Rightarrow> 32 word" where
  "word_of_bytes bs = foldl (\<lambda>w b. push_bit 8 w OR ucast b) 0 bs"

definition bytes_of_word :: "32 word \<Rightarrow> byte list" where
  "bytes_of_word w = map (\<lambda>i. ucast (drop_bit (8 * i) w AND 0xFF)) [3, 2, 1, 0]"

definition bytes_of_counter :: "64 word \<Rightarrow> byte list" where
  "bytes_of_counter w =
     map (\<lambda>i. ucast (drop_bit (8 * i) w AND 0xFF)) [7, 6, 5, 4, 3, 2, 1, 0]"

text \<open>
  Modelled from the spec: the compression of SHA-1, which is not among the sources. The
  message is filled up with the byte \<open>0x80\<close>, zeros and its length in bits to a
  multiple of 64 bytes. The sixteen words of a block are extended to eighty, kept
  latest first; eighty rounds mix them into the state, with the function and the
  constant of each range of twenty rounds; the result is added to the state.
\<close>

definition sha1_pad :: "byte list \<Rightarrow> byte list" where
  "sha1_pad msg =
     msg @ [0x80] @ replicate ((119 - length msg mod 64) mod 64) 0
       @ bytes_of_counter (of_nat (8 * length msg))"

fun sha1_schedule :: "nat \<Rightarrow> 32 word list \<Rightarrow> 32 word list" where
  "sha1_schedule 0 ws = ws"
| "sha1_schedule (Suc n) ws =
     sha1_schedule n (rotl 1 (ws ! 2 XOR ws ! 7 XOR ws ! 13 XOR ws ! 15) # ws)"

definition sha1_f :: "nat \<Rightarrow> 32 word \<Rightarrow> 32 word \<Rightarrow> 32 word \<Rightarrow> 32 word" where
  "sha1_f t b c d =
     (if t < 20 then (b AND c) OR (NOT b AND d)
      else if t < 40 then b XOR c XOR d
      else if t < 60 then (b AND c) OR (b AND d) OR (c AND d)
      else b XOR c XOR d)"

definition sha1_k :: "nat \<Rightarrow> 32 word" where
  "sha1_k t =
     (if t < 20 then 0x5A827999 else if t < 40 then 0x6ED9EBA1
      else if t < 60 then 0x8F1BBCDC else 0xCA62C1D6)"

type_synonym sha1_state = "32 word \<times> 32 word \<times> 32 word \<times> 32 word \<times> 32 word"

fun sha1_rounds :: "nat \<Rightarrow> 32 word list \<Rightarrow> sha1_state \<Rightarrow> sha1_state" where
  "sha1_rounds t [] s = s"
| "sha1_rounds t (w # ws) (a, b, c, d, e) =
     sha1_rounds (t + 1) ws
       (rotl 5 a + sha1_f t b c d + e + sha1_k t + w, a, rotl 30 b, c, d)"

fun sha1_add :: "sha1_state \<Rightarrow> sha1_state \<Rightarrow> sha1_state" where
  "sha1_add (h0, h1, h2, h3, h4) (a, b, c, d, e) = (h0 + a, h1 + b, h2 + c, h3 + d, h4 + e)"

definition sha1_block :: "sha1_state \<Rightarrow> byte list \<Rightarrow> sha1_state" where
  "sha1_block h block =
     sha1_add h
       (sha1_rounds 0
          (rev (sha1_schedule 64 (rev (map word_of_bytes (groups_of 4 block))))) h)"

fun sha1_output :: "sha1_state \<Rightarrow> byte list" where
  "sha1_output (h0, h1, h2, h3, h4) = concat (map bytes_of_word [h0, h1, h2, h3, h4])"

text \<open>
  Modelled from the spec: SHA-1, which is not among the sources: the blocks of the
  padded message are compressed into the initial state one after the other, and the
  five words of the last state are the 20 bytes of the hash.
\<close>

definition sha1_init :: sha1_state where
  "sha1_init = (0x67452301, 0xEFCDAB89, 0x98BADCFE, 0x10325476, 0xC3D2E1F0)"

definition sha1 :: "byte list \<Rightarrow> byte list" where
  "sha1 msg = sha1_output (foldl sha1_block sha1_init (groups_of 64 (sha1_pad msg)))"

text \<open>
  Modelled from the spec: HMAC with SHA-1, which is not among the sources. A key longer
  than a block of 64 bytes is hashed first, and the key is filled up with zeros to a
  block; the message is hashed after the key block masked with \<open>0x36\<close>, and that hash
  is hashed after the key block masked with \<open>0x5C\<close>.
\<close>

definition hmac_key_block :: "byte list \<Rightarrow> byte list" where
  "hmac_key_block key =
     pad_right 64 0 (if length key > 64 then sha1 key else key)"

definition hmac_sha1 :: keyed_hash where
  "hmac_sha1 key msg =
     sha1 (map (\<lambda>b. b XOR 0x5C) (hmac_key_block key)
           @ sha1 (map (\<lambda>b. b XOR 0x36) (hmac_key_block key) @ msg))"

section \<open>The TOTP engine\<close>

datatype totp_error = InvalidInput

text \<open>
  Modelled from the spec: the format of the code, which is not among the sources: a
  number in decimal, as \<open>toString\<close> writes it, and a string filled up on the left to
  a given length, as \<open>padStart\<close> does.
\<close>

definition digits :: string where
  "digits = ''0123456789''"

function decimal :: "nat \<Rightarrow> string" where
  "decimal n =
     (if n < 10 then [digits ! n]
      else decimal (n div 10) @ [digits ! (n mod 10)])"
  by pat_completeness auto
termination
  by (relation "measure id") auto

declare decimal.simps [simp del]

definition padStart :: "nat \<Rightarrow> char \<Rightarrow> string \<Rightarrow> string" where
  "padStart n c s = replicate (n - length s) c @ s"

definition is_digit :: "char \<Rightarrow> bool" where
  "is_digit c \<longleftrightarrow> c \<in> set digits"

text \<open>
  Modelled from the spec: the time counter of the TOTP engine, which is not among the
  sources. Times are milliseconds since the epoch, as \<open>Date.now()\<close> gives them; the
  counter is the number of whole steps of 30 seconds.
\<close>

definition stepSeconds :: int where
  "stepSeconds = 30"

definition unixSeconds :: "int \<Rightarrow> int" where
  "unixSeconds time = time div 1000"

definition timeCounter :: "int \<Rightarrow> int" where
  "timeCounter time = unixSeconds time div stepSeconds"

text \<open>
  Modelled from the spec: the dynamic truncation, which is not among the sources. It
  takes the four bytes at the offset that the low nibble of the last byte of the hash
  gives, clears the top bit and reads them as a number, the most significant byte
  first. A hash too short to hold the four bytes has no truncation.
\<close>

definition dynamic_truncate :: "byte list \<Rightarrow> 32 word option" where
  "dynamic_truncate hs =
     (if hs = [] then None
      else
        (let offset = unat (last hs AND 0x0F) in
         if offset + 4 \<le> length hs
         then Some (word_of_bytes
                [hs ! offset AND 0x7F, hs ! (offset + 1), hs ! (offset + 2), hs ! (offset + 3)])
         else None))"

text \<open>
  Modelled from the spec: \<open>generateTOTP\<close> of \<open>utils/totp\<close>, \<open>generateCode\<close> in the
  specification, is not among the sources; only its test is. The secret is decoded,
  the counter is written as 8 bytes, the most significant first, and hashed with the
  secret as the key; the code is the truncation of the hash modulo \<open>10^6\<close>, as six
  decimal digits. A malformed secret, or a hash with no truncation, is the error
  \<open>InvalidInput\<close>.
\<close>

definition generateCode :: "keyed_hash \<Rightarrow> string \<Rightarrow> int \<Rightarrow> totp_error + string" where
  "generateCode hmac secret time =
     (case decodeBase32 secret of
        None \<Rightarrow> Inl InvalidInput
      | Some key \<Rightarrow>
          (case dynamic_truncate (hmac key (bytes_of_counter (word_of_int (timeCounter time)))) of
             None \<Rightarrow> Inl InvalidInput
           | Some v \<Rightarrow> Inr (padStart 6 (CHR ''0'') (decimal (unat v mod 1000000)))))"

text \<open>
  Modelled from the spec: the search of \<open>validateTOTP\<close>, which is not among the
  sources: the code is compared with the code of each time of a list, from the first
  on.
\<close>

fun matches_any :: "keyed_hash \<Rightarrow> string \<Rightarrow> string \<Rightarrow> int list \<Rightarrow> bool" where
  "matches_any hmac secret code [] = False"
| "matches_any hmac secret code (t # ts) =
     (if generateCode hmac secret t = Inr code then True
      else matches_any hmac secret code ts)"

text \<open>
  Modelled from the spec: the times that \<open>validateTOTP\<close>, which is not among the
  sources, looks at with the tolerance \<open>k\<close>:
  \<open>now - k\<cdot>step, \<dots>, now, \<dots>, now + k\<cdot>step\<close>.
\<close>

definition window_times :: "int \<Rightarrow> int \<Rightarrow> int list" where
  "window_times now k = map (\<lambda>i. now + i * (stepSeconds * 1000)) [- k..k]"

text \<open>
  Modelled from the spec: \<open>validateTOTP\<close> of \<open>utils/totp\<close>, \<open>validateCode\<close> in the
  specification, is not among the sources; only its test is. The code is valid when
  it is the code of one of the times of the window. A secret that cannot be decoded
  is the error \<open>InvalidInput\<close>, which the specification keeps apart from a code that
  is wrong.
\<close>

definition validateCode ::
  "keyed_hash \<Rightarrow> string \<Rightarrow> string \<Rightarrow> int \<Rightarrow> int \<Rightarrow> totp_error + bool" where
  "validateCode hmac secret code now k =
     (case decodeBase32 secret of
        None \<Rightarrow> Inl InvalidInput
      | Some key \<Rightarrow> Inr (matches_any hmac secret code (window_times now k)))"

section \<open>The CSRF guard\<close>

text \<open>
  Modelled from the spec: \<open>getCSRFToken\<close> of \<open>utils/csrf\<close> is not among the sources;
  only its test is. It reads the token from the cookie store, which is the function
  that the \<open>get\<close> of the store computes; the name of the cookie is a constant of the
  missing file, taken as an argument.
\<close>

definition getCSRFToken :: "(string \<Rightarrow> string option) \<Rightarrow> string \<Rightarrow> string option" where
  "getCSRFToken cookies token_name = cookies token_name"

text \<open>
  Modelled from the spec: \<open>validateCSRFToken\<close> of \<open>utils/csrf\<close> is not among the
  sources; only its tests are, and the names of the cookie and of the header are
  constants of the missing file, taken as arguments. The headers and the form data
  are the functions that their \<open>get\<close> computes. The candidate is the value of the
  header, or else the value of the field of the form data; the request is valid when
  the cookie holds a token, a candidate was found and the two are equal. An empty
  value counts as a missing one.
\<close>

definition validateCSRFToken ::
  "string \<Rightarrow> string \<Rightarrow> (string \<Rightarrow> string option) \<Rightarrow> NextRequest
    \<Rightarrow> (string \<Rightarrow> string option) option \<Rightarrow> bool" where
  "validateCSRFToken token_name header_name cookies request formData =
     (let cookieToken = getCSRFToken cookies token_name;
          headerToken = headers request header_name;
          formToken = (case formData of None \<Rightarrow> None | Some fd \<Rightarrow> fd token_name);
          token = (case truthy headerToken of Some h \<Rightarrow> Some h | None \<Rightarrow> truthy formToken)
      in case truthy cookieToken of
           None \<Rightarrow> False
         | Some c \<Rightarrow> (case token of None \<Rightarrow> False | Some t \<Rightarrow> c = t))"

text \<open>
  The requests of the tests of the guard: the cookie holds \<open>test-token\<close>, and the
  token comes in the header, in the form data, or is another one.
\<close>

definition csrf_cookies :: "string \<Rightarrow> string option" where
  "csrf_cookies = [''csrf-token'' \<mapsto> ''test-token'']"

definition request_csrf_header :: NextRequest where
  "request_csrf_header = \<lparr>headers = [''x-csrf-token'' \<mapsto> ''test-token'']\<rparr>"

definition request_csrf_invalid :: NextRequest where
  "request_csrf_invalid = \<lparr>headers = [''x-csrf-token'' \<mapsto> ''invalid-token'']\<rparr>"

definition csrf_form :: "string \<Rightarrow> string option" where
  "csrf_form = [''csrf-token'' \<mapsto> ''test-token'']"

section \<open>Properties of the rate limiter\<close>

subsection \<open>The store, the sweep and the configuration\<close>

lemma cleanup_loop_filter:
  "cleanup_loop now xs st =
     filter (\<lambda>p. fst p \<notin> fst ` {x \<in> set xs. resetTime (snd x) \<le> now}) st"
proof (induction xs arbitrary: st)
  case Nil
  then show ?case by simp
next
  case (Cons x xs)
  obtain key entry where x: "x = (key, entry)" by (cases x)
  show ?case
    unfolding x by (force simp: Cons.IH AList.delete_eq intro!: filter_cong)
qed

lemma cleanup_loop_self:
  assumes "distinct (map fst st)"
  shows "cleanup_loop now st st = filter (\<lambda>p. \<not> resetTime (snd p) \<le> now) st"
  unfolding cleanup_loop_filter
proof (rule filter_cong[OF refl])
  fix p assume p: "p \<in> set st"
  show "(fst p \<notin> fst ` {x \<in> set st. resetTime (snd x) \<le> now}) = (\<not> resetTime (snd p) \<le> now)"
  proof
    assume "fst p \<notin> fst ` {x \<in> set st. resetTime (snd x) \<le> now}"
    with p show "\<not> resetTime (snd p) \<le> now" by auto
  next
    assume np: "\<not> resetTime (snd p) \<le> now"
    show "fst p \<notin> fst ` {x \<in> set st. resetTime (snd x) \<le> now}"
    proof
      assume "fst p \<in> fst ` {x \<in> set st. resetTime (snd x) \<le> now}"
      then obtain q where q: "q \<in> set st" "resetTime (snd q) \<le> now" "fst q = fst p" by auto
      from assms p q(1) q(3) have "q = p"
        by (metis eq_key_imp_eq_value prod.collapse)
      with q(2) np show False by simp
    qed
  qed
qed

lemma map_of_filter_distinct:
  assumes "distinct (map fst st)"
  shows "map_of (filter P st) k =
    (case map_of st k of None \<Rightarrow> None | Some e \<Rightarrow> if P (k, e) then Some e else None)"
  using assms
proof (induction st)
  case Nil
  then show ?case by simp
next
  case (Cons a st)
  then show ?case 
    by (cases a) (auto split: option.splits simp: map_of_eq_None_iff image_iff dest: map_of_SomeD)
qed

lemma store_cleanup:
  "wf_store rl \<Longrightarrow> store (cleanup now rl) = filter (\<lambda>p. \<not> resetTime (snd p) \<le> now) (store rl)"
  by (simp add: cleanup_def wf_store_def cleanup_loop_self)

lemma map_of_cleanup:
  "wf_store rl \<Longrightarrow> map_of (store (cleanup now rl)) k =
     (case map_of (store rl) k of None \<Rightarrow> None
      | Some e \<Rightarrow> if resetTime e \<le> now then None else Some e)"
  by (simp add: store_cleanup map_of_filter_distinct wf_store_def split: option.splits)

lemma map_of_reset: "map_of (store (reset key rl)) = (map_of (store rl))(key := None)"
  by (simp add: reset_def delete_conv')

lemma map_of_isAllowed_other:
  "k \<noteq> key \<Longrightarrow> map_of (store (snd (isAllowed now key rl))) k = map_of (store rl) k"
  by (simp add: isAllowed_def Let_def update_conv' split: option.splits)

lemma wf_isAllowed: "wf_store rl \<Longrightarrow> wf_store (snd (isAllowed now key rl))"
  by (simp add: isAllowed_def Let_def wf_store_def distinct_update split: option.splits)

lemma wf_reset: "wf_store rl \<Longrightarrow> wf_store (reset key rl)"
  by (simp add: reset_def wf_store_def distinct_delete)

lemma wf_cleanup: "wf_store rl \<Longrightarrow> wf_store (cleanup now rl)"
  by (simp add: store_cleanup wf_store_def distinct_map_filter)

lemma wf_exec: "wf_store rl \<Longrightarrow> wf_store (snd (exec c rl))"
  by (cases c) (simp_all add: wf_isAllowed wf_reset wf_cleanup case_prod_beta)

lemma config_isAllowed:
  "windowMs (snd (isAllowed now key rl)) = windowMs rl"
  "maxRequests (snd (isAllowed now key rl)) = maxRequests rl"
  by (simp_all add: isAllowed_def Let_def split: option.splits)

lemma config_exec:
  "windowMs (snd (exec c rl)) = windowMs rl"
  "maxRequests (snd (exec c rl)) = maxRequests rl"
  by (cases c; simp add: config_isAllowed reset_def cleanup_def case_prod_beta)+

lemma config_run:
  "windowMs (snd (run cs rl)) = windowMs rl \<and> maxRequests (snd (run cs rl)) = maxRequests rl"
  by (induction cs arbitrary: rl) (simp_all add: config_exec case_prod_beta)


subsection \<open>Single calls of \<open>isAllowed\<close>\<close>

text \<open>
  C2. When the key has no entry, or the time has reached the \<open>resetTime\<close> of its entry,
  \<open>isAllowed\<close> returns \<open>allowed = true\<close> and \<open>remaining = N - 1\<close> with the reset
  time \<open>now + W\<close>, and the store then maps the key to \<open>count = 1\<close> and
  \<open>resetTime = now + W\<close> and every other key as before. The call behaves as if the key
  were new: its result and the store it leaves are those of the same call made after
  the entry has been deleted.
\<close>

theorem isAllowed_window_reset:
  assumes "absent_or_expired now (map_of (store rl) key)"
  shows "fst (isAllowed now key rl) =
           \<lparr>allowed = True, resultResetTime = now + windowMs rl,
            remaining = maxRequests rl - 1\<rparr>
       \<and> map_of (store (snd (isAllowed now key rl))) =
           (map_of (store rl))(key \<mapsto> \<lparr>count = 1, resetTime = now + windowMs rl\<rparr>)
       \<and> fst (isAllowed now key rl) = fst (isAllowed now key (reset key rl))
       \<and> map_of (store (snd (isAllowed now key rl))) =
           map_of (store (snd (isAllowed now key (reset key rl))))"
  using assms
  by (auto simp: isAllowed_def reset_def absent_or_expired_def Let_def update_conv' delete_conv'
      split: option.splits)

theorem isAllowed_window_reset_witness:
  "absent_or_expired 1500 (map_of (store limiter_ab) ''b'')
   \<and> fst (isAllowed 1500 ''b'' limiter_ab) =
       \<lparr>allowed = True, resultResetTime = 61500, remaining = 1\<rparr>
   \<and> map_of (store (snd (isAllowed 1500 ''b'' limiter_ab))) ''b'' =
       Some \<lparr>count = 1, resetTime = 61500\<rparr>"
proof -
  have h: "absent_or_expired 1500 (map_of (store limiter_ab) ''b'')"
    by (simp add: limiter_ab_def absent_or_expired_def)
  from isAllowed_window_reset [OF h] show ?thesis
    using h by (simp add: limiter_ab_def)
qed

text \<open>
  C6. When the entry of the key has \<open>count \<ge> N\<close> and its \<open>resetTime\<close> has not been
  reached, \<open>isAllowed\<close> returns \<open>allowed = false\<close> and \<open>remaining = 0\<close> with the stored
  \<open>resetTime\<close>, and the limiter it leaves is the limiter it was given: no entry and no
  field has changed.
\<close>

theorem isAllowed_blocked_unchanged:
  assumes "map_of (store rl) key = Some e" and "count e \<ge> maxRequests rl"
    and "now < resetTime e"
  shows "isAllowed now key rl =
           (\<lparr>allowed = False, resultResetTime = resetTime e, remaining = 0\<rparr>, rl)"
  using assms by (simp add: isAllowed_def)

theorem isAllowed_blocked_unchanged_witness:
  "isAllowed 1500 ''a'' limiter_ab =
     (\<lparr>allowed = False, resultResetTime = 61000, remaining = 0\<rparr>, limiter_ab)"
  using isAllowed_blocked_unchanged
    [of limiter_ab "''a''" "\<lparr>count = 2, resetTime = 61000\<rparr>" 1500]
  by (simp add: limiter_ab_def)

subsection \<open>Counter bounds\<close>

lemma set_update_subset: "set (AList.update k v al) \<subseteq> insert (k, v) (set al)"
  by (induction al) auto

lemma counts_isAllowed:
  assumes "1 \<le> maxRequests rl"
    and "\<forall>p\<in>set (store rl). 1 \<le> count (snd p) \<and> count (snd p) \<le> maxRequests rl"
  shows "\<forall>p\<in>set (store (snd (isAllowed now key rl))). 
           1 \<le> count (snd p) \<and> count (snd p) \<le> maxRequests rl"
proof -
  have upd: "\<forall>p\<in>set (AList.update key v (store rl)). 
           1 \<le> count (snd p) \<and> count (snd p) \<le> maxRequests rl"
    if "1 \<le> count v" "count v \<le> maxRequests rl" for v
    using set_update_subset[of key v "store rl"] assms(2) that by auto
  show ?thesis
  proof (cases "map_of (store rl) key")
    case None
    then show ?thesis using upd[of "\<lparr>count = 1, resetTime = now + windowMs rl\<rparr>"] assms(1)
      by (simp add: isAllowed_def)
  next
    case (Some e)
    have e: "1 \<le> count e" using assms(2) map_of_SomeD[OF Some] by force
    show ?thesis
      using Some upd[of "\<lparr>count = 1, resetTime = now + windowMs rl\<rparr>"] 
         upd[of "e\<lparr>count := count e + 1\<rparr>"] assms e
      by (simp add: isAllowed_def Let_def)
  qed
qed

lemma counts_exec:
  assumes "1 \<le> maxRequests rl"
    and "\<forall>p\<in>set (store rl). 1 \<le> count (snd p) \<and> count (snd p) \<le> maxRequests rl"
  shows "\<forall>p\<in>set (store (snd (exec c rl))). 
           1 \<le> count (snd p) \<and> count (snd p) \<le> maxRequests rl"
proof (cases c)
  case (IsAllowed now key)
  then show ?thesis using counts_isAllowed[OF assms] by simp
next
  case (Reset key)
  then show ?thesis using assms(2) by (simp add: reset_def AList.delete_eq)
next
  case (Cleanup now)
  then show ?thesis using assms(2) by (simp add: cleanup_def cleanup_loop_filter)
qed

lemma counts_run:
  assumes "1 \<le> maxRequests rl"
    and "\<forall>p\<in>set (store rl). 1 \<le> count (snd p) \<and> count (snd p) \<le> maxRequests rl"
  shows "\<forall>p\<in>set (store (snd (run cs rl))). 
           1 \<le> count (snd p) \<and> count (snd p) \<le> maxRequests rl"
  using assms
proof (induction cs arbitrary: rl)
  case Nil
  then show ?case by simp
next
  case (Cons c cs)
  have "1 \<le> maxRequests (snd (exec c rl))" using Cons.prems(1) by (simp add: config_exec)
  moreover have "\<forall>p\<in>set (store (snd (exec c rl))). 
           1 \<le> count (snd p) \<and> count (snd p) \<le> maxRequests (snd (exec c rl))"
    using counts_exec[OF Cons.prems] by (simp add: config_exec)
  ultimately have "\<forall>p\<in>set (store (snd (run cs (snd (exec c rl))))). 
           1 \<le> count (snd p) \<and> count (snd p) \<le> maxRequests (snd (exec c rl))"
    by (rule Cons.IH)
  then show ?case by (simp add: config_exec)
qed

text \<open>
  C10. In a limiter made with a budget \<open>n \<ge> 1\<close>, after any sequence of calls of
  \<open>isAllowed\<close>, \<open>reset\<close> and \<open>cleanup\<close>, made at any times, every entry of the
  store has \<open>1 \<le> count \<le> n\<close>.
\<close>

theorem count_bounds:
  assumes "1 \<le> n"
  shows "\<forall>p\<in>set (store (snd (run cs (newRateLimiter w n)))). 1 \<le> count (snd p) \<and> count (snd p) \<le> n"
  using counts_run[of "newRateLimiter w n" cs] assms by (simp add: newRateLimiter_def)

theorem count_bounds_witness:
  "store (snd (run [IsAllowed 0 ''k'', IsAllowed 5 ''o'', IsAllowed 10 ''k'', Cleanup 20,
        IsAllowed 30 ''k'', Reset ''o'', IsAllowed 70000 ''k''] (newRateLimiter 60000 2))) = 
    [(''k'', \<lparr>count = 1, resetTime = 130000\<rparr>)] \<and> 
   1 \<le> count \<lparr>count = 1, resetTime = 130000\<rparr> \<and> count \<lparr>count = 1, resetTime = 130000\<rparr> \<le> 2"
  using count_bounds[of 2 "[IsAllowed 0 ''k'', IsAllowed 5 ''o'', IsAllowed 10 ''k'', Cleanup 20,
        IsAllowed 30 ''k'', Reset ''o'', IsAllowed 70000 ''k'']" 60000]
  by (simp add: newRateLimiter_def isAllowed_def cleanup_def reset_def)

subsection \<open>The sweep and later calls\<close>

lemma fst_exec_IsAllowed: "fst (exec (IsAllowed now key) rl) = [(key, fst (isAllowed now key rl))]"
  by simp

lemma snd_exec_IsAllowed: "snd (exec (IsAllowed now key) rl) = snd (isAllowed now key rl)"
  by simp

lemma fst_run_Cons: "fst (run (c # cs) rl) = fst (exec c rl) @ fst (run cs (snd (exec c rl)))"
  by simp

lemma snd_run_Cons: "snd (run (c # cs) rl) = snd (run cs (snd (exec c rl)))"
  by simp

lemma wf_run: "wf_store rl \<Longrightarrow> wf_store (snd (run cs rl))"
  by (induction cs arbitrary: rl) (simp_all add: wf_exec)

lemma wf_reachable: "wf_store (snd (run cs (newRateLimiter w n)))"
  by (rule wf_run) (simp add: wf_store_def newRateLimiter_def)

lemma sweep_equiv_cleanup:
  assumes "wf_store rl"
  shows "sweep_equiv now (cleanup now rl) rl"
proof -
  have "map_of (store (cleanup now rl)) k = map_of (store rl) k \<or>
          absent_or_expired now (map_of (store (cleanup now rl)) k) \<and>
          absent_or_expired now (map_of (store rl) k)" for k
    unfolding map_of_cleanup[OF assms]
    by (simp add: absent_or_expired_def split: option.splits)
  then show ?thesis
    by (simp add: sweep_equiv_def) (simp add: cleanup_def)
qed

lemma isAllowed_expired:
  assumes "absent_or_expired now (map_of (store rl) key)"
  shows "isAllowed now key rl =
    (\<lparr>allowed = True, resultResetTime = now + windowMs rl, remaining = maxRequests rl - 1\<rparr>,
     rl\<lparr>store := AList.update key \<lparr>count = 1, resetTime = now + windowMs rl\<rparr> (store rl)\<rparr>)"
  using assms by (auto simp: isAllowed_def absent_or_expired_def Let_def split: option.splits)

lemma absent_or_expired_mono: "absent_or_expired t x \<Longrightarrow> t \<le> t' \<Longrightarrow> absent_or_expired t' x"
  by (auto simp: absent_or_expired_def split: option.splits)

lemma sweep_equiv_isAllowed:
  assumes eq: "sweep_equiv t rl rl'" and t: "t \<le> now"
  shows "fst (isAllowed now key rl) = fst (isAllowed now key rl')
       \<and> sweep_equiv t (snd (isAllowed now key rl)) (snd (isAllowed now key rl'))"
proof -
  from eq have cfg: "windowMs rl = windowMs rl'" "maxRequests rl = maxRequests rl'"
    by (simp_all add: sweep_equiv_def)
  from eq have other: "map_of (store rl) k = map_of (store rl') k \<or>
          absent_or_expired t (map_of (store rl) k) \<and> absent_or_expired t (map_of (store rl') k)" for k
    by (simp add: sweep_equiv_def)
  have rest: "map_of (store (snd (isAllowed now key rl))) k = map_of (store (snd (isAllowed now key rl'))) k \<or>
          absent_or_expired t (map_of (store (snd (isAllowed now key rl))) k) \<and> 
          absent_or_expired t (map_of (store (snd (isAllowed now key rl'))) k)" if "k \<noteq> key" for k
    using other[of k] that by (simp add: map_of_isAllowed_other)
  from other[of key] show ?thesis
  proof
    assume same: "map_of (store rl) key = map_of (store rl') key"
    have r: "fst (isAllowed now key rl) = fst (isAllowed now key rl')"
      using same cfg by (simp add: isAllowed_def Let_def split: option.splits)
    have k: "map_of (store (snd (isAllowed now key rl))) key = map_of (store (snd (isAllowed now key rl'))) key"
      using same cfg by (simp add: isAllowed_def Let_def update_conv' split: option.splits)
    have "map_of (store (snd (isAllowed now key rl))) k' = map_of (store (snd (isAllowed now key rl'))) k' \<or>
          absent_or_expired t (map_of (store (snd (isAllowed now key rl))) k') \<and> 
          absent_or_expired t (map_of (store (snd (isAllowed now key rl'))) k')" for k'
      using k rest[of k'] by (cases "k' = key") simp_all
    then show ?thesis using r cfg
      by (simp add: sweep_equiv_def config_isAllowed)
  next
    assume "absent_or_expired t (map_of (store rl) key) \<and> absent_or_expired t (map_of (store rl') key)"
    then have ex: "absent_or_expired now (map_of (store rl) key)" "absent_or_expired now (map_of (store rl') key)"
      using t absent_or_expired_mono by blast+
    have k: "map_of (store (snd (isAllowed now key rl))) key = map_of (store (snd (isAllowed now key rl'))) key"
      using cfg by (simp add: isAllowed_expired[OF ex(1)] isAllowed_expired[OF ex(2)] update_conv')
    have r: "fst (isAllowed now key rl) = fst (isAllowed now key rl')"
      using cfg by (simp add: isAllowed_expired[OF ex(1)] isAllowed_expired[OF ex(2)])
    have "map_of (store (snd (isAllowed now key rl))) k' = map_of (store (snd (isAllowed now key rl'))) k' \<or>
          absent_or_expired t (map_of (store (snd (isAllowed now key rl))) k') \<and> 
          absent_or_expired t (map_of (store (snd (isAllowed now key rl'))) k')" for k'
      using k rest[of k'] by (cases "k' = key") simp_all
    then show ?thesis using r cfg
      by (simp add: sweep_equiv_def config_isAllowed)
  qed
qed

lemma sweep_equiv_reset:
  assumes "sweep_equiv t rl rl'"
  shows "sweep_equiv t (reset key rl) (reset key rl')"
  using assms by (simp add: sweep_equiv_def map_of_reset) (simp add: reset_def)

lemma expired_cleanup:
  assumes "wf_store rl" "absent_or_expired t (map_of (store rl) k)" "t \<le> now"
  shows "map_of (store (cleanup now rl)) k = None"
  using assms(2,3) unfolding map_of_cleanup[OF assms(1)]
  by (cases "map_of (store rl) k") (simp_all add: absent_or_expired_def)

lemma sweep_equiv_cleanup_both:
  assumes "sweep_equiv t rl rl'" "wf_store rl" "wf_store rl'" "t \<le> now"
  shows "sweep_equiv t (cleanup now rl) (cleanup now rl')"
proof -
  have "map_of (store (cleanup now rl)) k = map_of (store (cleanup now rl')) k" for k
  proof -
    from assms(1) have "map_of (store rl) k = map_of (store rl') k \<or>
          absent_or_expired t (map_of (store rl) k) \<and> absent_or_expired t (map_of (store rl') k)"
      by (simp add: sweep_equiv_def)
    then show ?thesis
    proof
      assume "map_of (store rl) k = map_of (store rl') k"
      then show ?thesis
        by (simp add: map_of_cleanup[OF assms(2)] map_of_cleanup[OF assms(3)])
    next
      assume "absent_or_expired t (map_of (store rl) k) \<and> absent_or_expired t (map_of (store rl') k)"
      then show ?thesis
        using expired_cleanup[OF assms(2) _ assms(4)] expired_cleanup[OF assms(3) _ assms(4)]
        by simp
    qed
  qed
  with assms(1) show ?thesis
    by (simp add: sweep_equiv_def) (simp add: cleanup_def)
qed

lemma sweep_equiv_exec:
  assumes "sweep_equiv t rl rl'" "wf_store rl" "wf_store rl'" "not_before t c"
  shows "fst (exec c rl) = fst (exec c rl') \<and> sweep_equiv t (snd (exec c rl)) (snd (exec c rl'))"
proof (cases c)
  case (IsAllowed now key)
  then show ?thesis using sweep_equiv_isAllowed[OF assms(1), of now key] assms(4)
    by simp
next
  case (Reset key)
  then show ?thesis using sweep_equiv_reset[OF assms(1)] by simp
next
  case (Cleanup now)
  then show ?thesis using sweep_equiv_cleanup_both[OF assms(1-3), of now] assms(4) by simp
qed

lemma sweep_equiv_run:
  assumes "sweep_equiv t rl rl'" "wf_store rl" "wf_store rl'" "\<forall>c\<in>set cs. not_before t c"
  shows "fst (run cs rl) = fst (run cs rl')"
  using assms
proof (induction cs arbitrary: rl rl')
  case Nil
  then show ?case by simp
next
  case (Cons c cs)
  from Cons.prems have c: "not_before t c" and cs: "\<forall>c\<in>set cs. not_before t c" by simp_all
  note step = sweep_equiv_exec[OF Cons.prems(1-3) c]
  have "fst (run cs (snd (exec c rl))) = fst (run cs (snd (exec c rl')))"
    using step Cons.prems(2,3) cs by (intro Cons.IH) (simp_all add: wf_exec)
  with step show ?case by (simp only: fst_run_Cons)
qed

text \<open>
  C7. The sweep made at the time \<open>now\<close> leaves exactly the entries of the store whose
  \<open>resetTime\<close> is after \<open>now\<close>, in their order, and changes nothing else of the
  limiter. Whatever calls follow the sweep, none of them made before \<open>now\<close>, every
  call of \<open>isAllowed\<close> among them returns what it returns when the sweep is left out.
\<close>

theorem cleanup_sweep:
  assumes "wf_store rl" and "\<forall>c\<in>set cs. not_before now c"
  shows "store (cleanup now rl) = filter (\<lambda>p. \<not> resetTime (snd p) \<le> now) (store rl)
       \<and> windowMs (cleanup now rl) = windowMs rl
       \<and> maxRequests (cleanup now rl) = maxRequests rl
       \<and> fst (run cs (cleanup now rl)) = fst (run cs rl)"
proof -
  have "fst (run cs (cleanup now rl)) = fst (run cs rl)"
    using sweep_equiv_cleanup[OF assms(1)] wf_cleanup[OF assms(1)] assms
    by (rule sweep_equiv_run)
  moreover have "windowMs (cleanup now rl) = windowMs rl"
    and "maxRequests (cleanup now rl) = maxRequests rl"
    by (simp_all add: cleanup_def)
  ultimately show ?thesis
    using store_cleanup[OF assms(1), of now] by simp
qed

theorem cleanup_sweep_witness:
  "store (cleanup 1500 limiter_ab) = [(''a'', \<lparr>count = 2, resetTime = 61000\<rparr>)]
   \<and> fst (run [IsAllowed 1500 ''b'', IsAllowed 1600 ''a'', Cleanup 61000, IsAllowed 61000 ''a'']
          (cleanup 1500 limiter_ab)) =
       fst (run [IsAllowed 1500 ''b'', IsAllowed 1600 ''a'', Cleanup 61000, IsAllowed 61000 ''a'']
          limiter_ab)"
proof -
  have wf: "wf_store limiter_ab"
    by (simp add: wf_store_def limiter_ab_def)
  have later: "\<forall>c\<in>set [IsAllowed 1500 ''b'', IsAllowed 1600 ''a'', Cleanup 61000,
      IsAllowed 61000 ''a'']. not_before 1500 c"
    by simp
  from cleanup_sweep [OF wf later] show ?thesis
    by (simp add: limiter_ab_def)
qed

subsection \<open>The fixed window\<close>

lemma results_for_Cons:
  "results_for key (c # cs) rl =
     map snd (filter (\<lambda>p. fst p = key) (fst (exec c rl))) @ results_for key cs (snd (exec c rl))"
  by (simp only: results_for_def fst_run_Cons filter_append map_append)

lemma isAllowed_counting:
  assumes "map_of (store rl) key = Some e" "now < resetTime e"
  shows "fst (isAllowed now key rl) =
          (if count e < maxRequests rl
           then \<lparr>allowed = True, resultResetTime = resetTime e,
                 remaining = maxRequests rl - (count e + 1)\<rparr>
           else \<lparr>allowed = False, resultResetTime = resetTime e, remaining = 0\<rparr>)"
    and "map_of (store (snd (isAllowed now key rl))) key =
          Some (if count e < maxRequests rl then e\<lparr>count := count e + 1\<rparr> else e)"
  using assms by (simp_all add: isAllowed_def Let_def update_conv')

lemma window_exec_keeps:
  assumes "wf_store rl" "map_of (store rl) key = Some e" "within_window key (resetTime e) c"
    and "\<forall>t. c \<noteq> IsAllowed t key"
  shows "map_of (store (snd (exec c rl))) key = Some e"
    and "filter (\<lambda>p. fst p = key) (fst (exec c rl)) = []"
proof -
  show "map_of (store (snd (exec c rl))) key = Some e"
  proof (cases c)
    case (IsAllowed now k)
    with assms(4) have "k \<noteq> key" by simp
    then show ?thesis using IsAllowed assms(2)
      by (simp add: snd_exec_IsAllowed map_of_isAllowed_other)
  next
    case (Reset k)
    then show ?thesis using assms(2,3) by (simp add: map_of_reset)
  next
    case (Cleanup now)
    then show ?thesis using assms(2,3) by (simp add: map_of_cleanup[OF assms(1)])
  qed
  show "filter (\<lambda>p. fst p = key) (fst (exec c rl)) = []"
    using assms(4) by (cases c) (simp_all add: fst_exec_IsAllowed)
qed

lemma window_counting:
  assumes "wf_store rl" "map_of (store rl) key = Some e"
    and "\<forall>c\<in>set cs. within_window key (resetTime e) c"
    and "i < length (results_for key cs rl)"
  shows "results_for key cs rl ! i =
          (if count e + int i < maxRequests rl
           then \<lparr>allowed = True, resultResetTime = resetTime e,
                 remaining = maxRequests rl - (count e + int i + 1)\<rparr>
           else \<lparr>allowed = False, resultResetTime = resetTime e, remaining = 0\<rparr>)"
  using assms
proof (induction cs arbitrary: rl e i)
  case Nil
  then show ?case by (simp add: results_for_def)
next
  case (Cons c cs)
  from Cons.prems(3) have c: "within_window key (resetTime e) c"
    and cs: "\<forall>c\<in>set cs. within_window key (resetTime e) c" by simp_all
  let ?rl = "snd (exec c rl)"
  have wf: "wf_store ?rl" by (rule wf_exec[OF Cons.prems(1)])
  have n: "maxRequests ?rl = maxRequests rl" by (rule config_exec)
  show ?case
  proof (cases "\<exists>t. c = IsAllowed t key")
    case False
    then have no: "\<forall>t. c \<noteq> IsAllowed t key" by simp
    note keep = window_exec_keeps[OF Cons.prems(1,2) c no]
    have same: "results_for key (c # cs) rl = results_for key cs ?rl"
      by (simp only: results_for_Cons keep(2)) simp
    from Cons.IH[OF wf keep(1) cs, of i] Cons.prems(4) show ?thesis
      by (simp only: same n)
  next
    case True
    then obtain t where t: "c = IsAllowed t key" by blast
    with c have tr: "t < resetTime e" by simp
    note step = isAllowed_counting[OF Cons.prems(2) tr]
    let ?e = "if count e < maxRequests rl then e\<lparr>count := count e + 1\<rparr> else e"
    have e': "map_of (store ?rl) key = Some ?e"
      using step(2) t by (simp only: snd_exec_IsAllowed)
    have split: "results_for key (c # cs) rl = fst (isAllowed t key rl) # results_for key cs ?rl"
      by (simp add: results_for_Cons t fst_exec_IsAllowed)
    have re: "resetTime ?e = resetTime e" by simp
    show ?thesis
    proof (cases i)
      case 0
      then show ?thesis by (simp only: split step(1)) simp
    next
      case (Suc j)
      with Cons.prems(4) have j: "j < length (results_for key cs ?rl)"
        by (simp only: split) simp
      have cs': "\<forall>c\<in>set cs. within_window key (resetTime ?e) c"
        using cs by (simp only: re)
      from Cons.IH[OF wf e' cs' j] show ?thesis
        unfolding split Suc n by (auto split: if_splits)
    qed
  qed
qed

text \<open>
  C1. Let the budget be \<open>N \<ge> 1\<close> and let the key have no entry, or an expired one,
  when it is first asked about at the time \<open>t1\<close>. Let the calls that follow ask about
  this key only before \<open>t1 + W\<close>; requests for other keys, resets of other keys and
  sweeps before \<open>t1 + W\<close> may come between them. Then the call number \<open>i\<close> for the
  key, counted from 0, returns \<open>allowed = true\<close> and \<open>remaining = N - 1 - i\<close> while
  \<open>i < N\<close>, and \<open>allowed = false\<close> and \<open>remaining = 0\<close> from the call number \<open>N\<close>
  on, always with the reset time \<open>t1 + W\<close>.
\<close>

theorem fixed_window:
  assumes "1 \<le> maxRequests rl" and "wf_store rl"
    and "absent_or_expired t1 (map_of (store rl) key)"
    and "\<forall>c\<in>set cs. within_window key (t1 + windowMs rl) c"
    and "i < length (results_for key (IsAllowed t1 key # cs) rl)"
  shows "results_for key (IsAllowed t1 key # cs) rl ! i =
          (if int i < maxRequests rl
           then \<lparr>allowed = True, resultResetTime = t1 + windowMs rl,
                 remaining = maxRequests rl - 1 - int i\<rparr>
           else \<lparr>allowed = False, resultResetTime = t1 + windowMs rl, remaining = 0\<rparr>)"
proof -
  let ?rl = "snd (isAllowed t1 key rl)"
  let ?e = "\<lparr>count = 1, resetTime = t1 + windowMs rl\<rparr>"
  have first: "fst (isAllowed t1 key rl) =
      \<lparr>allowed = True, resultResetTime = t1 + windowMs rl, remaining = maxRequests rl - 1\<rparr>"
    and e: "map_of (store ?rl) key = Some ?e"
    by (simp_all add: isAllowed_expired[OF assms(3)] update_conv')
  have wf: "wf_store ?rl" by (rule wf_isAllowed[OF assms(2)])
  have n: "maxRequests ?rl = maxRequests rl" by (rule config_isAllowed)
  have split: "results_for key (IsAllowed t1 key # cs) rl =
      fst (isAllowed t1 key rl) # results_for key cs ?rl"
    by (simp add: results_for_Cons fst_exec_IsAllowed snd_exec_IsAllowed)
  show ?thesis
  proof (cases i)
    case 0
    then show ?thesis using assms(1) by (simp only: split first) simp
  next
    case (Suc j)
    with assms(5) have j: "j < length (results_for key cs ?rl)"
      by (simp only: split) simp
    have cs: "\<forall>c\<in>set cs. within_window key (resetTime ?e) c"
      using assms(4) by simp
    from window_counting[OF wf e cs j] show ?thesis
      unfolding split Suc n by (auto split: if_splits)
  qed
qed

theorem fixed_window_witness:
  "results_for ''k'' [IsAllowed 0 ''k'', IsAllowed 5 ''o'', IsAllowed 10 ''k'', Cleanup 20,
      IsAllowed 59999 ''k''] (newRateLimiter 60000 2) =
    [\<lparr>allowed = True, resultResetTime = 60000, remaining = 1\<rparr>,
     \<lparr>allowed = True, resultResetTime = 60000, remaining = 0\<rparr>,
     \<lparr>allowed = False, resultResetTime = 60000, remaining = 0\<rparr>]
   \<and> results_for ''k'' [IsAllowed 0 ''k'', IsAllowed 5 ''o'', IsAllowed 10 ''k'', Cleanup 20,
      IsAllowed 59999 ''k''] (newRateLimiter 60000 2) ! 2 =
     \<lparr>allowed = False, resultResetTime = 60000, remaining = 0\<rparr>"
proof -
  let ?cs = "[IsAllowed 5 ''o'', IsAllowed 10 ''k'', Cleanup 20, IsAllowed 59999 ''k'']"
  let ?rl = "newRateLimiter 60000 2"
  have rs: "results_for ''k'' (IsAllowed 0 ''k'' # ?cs) ?rl =
    [\<lparr>allowed = True, resultResetTime = 60000, remaining = 1\<rparr>,
     \<lparr>allowed = True, resultResetTime = 60000, remaining = 0\<rparr>,
     \<lparr>allowed = False, resultResetTime = 60000, remaining = 0\<rparr>]"
    by (simp add: results_for_def newRateLimiter_def isAllowed_def cleanup_def)
  have h1: "1 \<le> maxRequests ?rl" and h2: "wf_store ?rl"
    and h3: "absent_or_expired 0 (map_of (store ?rl) ''k'')"
    and h4: "\<forall>c\<in>set ?cs. within_window ''k'' (0 + windowMs ?rl) c"
    and h5: "2 < length (results_for ''k'' (IsAllowed 0 ''k'' # ?cs) ?rl)"
    by (simp_all add: rs) (simp_all add: newRateLimiter_def wf_store_def absent_or_expired_def)
  from fixed_window [OF h1 h2 h3 h4 h5] rs show ?thesis
    by (simp add: newRateLimiter_def)
qed

section \<open>Properties of the client address\<close>

lemma split_first: "\<exists>ps. split sep s = takeWhile (\<lambda>c. c \<noteq> sep) s # ps"
  by (induction s) auto

lemma getClientIP_forwarded:
  assumes "headers request ''x-forwarded-for'' = Some v" "v \<noteq> []"
  shows "getClientIP request = Inr (trim (takeWhile (\<lambda>c. c \<noteq> CHR '','') v))"
proof -
  obtain ps where "split (CHR '','') v = takeWhile (\<lambda>c. c \<noteq> CHR '','') v # ps"
    using split_first by blast
  with assms show ?thesis by (simp add: getClientIP_def truthy_def)
qed

lemma getClientIP_real:
  assumes "truthy (headers request ''x-forwarded-for'') = None"
    and "headers request ''x-real-ip'' = Some v" "v \<noteq> []"
  shows "getClientIP request = Inr (trim v)"
  using assms(2,3) by (simp add: getClientIP_def assms(1)) (simp add: truthy_def)

lemma getClientIP_cf:
  assumes "truthy (headers request ''x-forwarded-for'') = None"
    and "truthy (headers request ''x-real-ip'') = None"
    and "headers request ''cf-connecting-ip'' = Some v" "v \<noteq> []"
  shows "getClientIP request = Inr (trim v)"
  using assms(3,4) by (simp add: getClientIP_def assms(1,2)) (simp add: truthy_def)

lemma getClientIP_unknown:
  assumes "truthy (headers request ''x-forwarded-for'') = None"
    and "truthy (headers request ''x-real-ip'') = None"
    and "truthy (headers request ''cf-connecting-ip'') = None"
  shows "getClientIP request = Inr ''unknown''"
  by (simp add: getClientIP_def assms)

text \<open>
  C8, as amended. A header counts when it is present and its value is not empty.
  \<open>getClientIP\<close> returns the trimmed first comma-separated entry of
  \<open>x-forwarded-for\<close> when that header counts, whatever the other two hold; otherwise
  the trimmed \<open>x-real-ip\<close> when that header counts; otherwise the trimmed
  \<open>cf-connecting-ip\<close> when that header counts; otherwise, when each of the three is
  absent or empty, the sentinel \<open>unknown\<close>. It never raises.
\<close>

theorem getClientIP_precedence:
  "(\<forall>v. headers request ''x-forwarded-for'' = Some v \<and> v \<noteq> [] \<longrightarrow>
       getClientIP request = Inr (trim (takeWhile (\<lambda>c. c \<noteq> CHR '','') v)))
   \<and> (\<forall>v. truthy (headers request ''x-forwarded-for'') = None \<and>
         headers request ''x-real-ip'' = Some v \<and> v \<noteq> [] \<longrightarrow>
       getClientIP request = Inr (trim v))
   \<and> (\<forall>v. truthy (headers request ''x-forwarded-for'') = None \<and>
         truthy (headers request ''x-real-ip'') = None \<and>
         headers request ''cf-connecting-ip'' = Some v \<and> v \<noteq> [] \<longrightarrow>
       getClientIP request = Inr (trim v))
   \<and> (truthy (headers request ''x-forwarded-for'') = None \<and>
         truthy (headers request ''x-real-ip'') = None \<and>
         truthy (headers request ''cf-connecting-ip'') = None \<longrightarrow>
       getClientIP request = Inr ''unknown'')"
  using getClientIP_forwarded getClientIP_real getClientIP_cf getClientIP_unknown
  by blast

text \<open>
  C8, as stated, fails for a request whose \<open>x-forwarded-for\<close> header is present with
  an empty value: the claim gives the first entry of that header, the empty string, and
  \<open>getClientIP\<close> goes on to \<open>x-real-ip\<close>.
\<close>

theorem getClientIP_counterexample:
  "headers request_empty_forwarded ''x-forwarded-for'' = Some []
   \<and> getClientIP request_empty_forwarded = Inr ''10.0.0.7''
   \<and> getClientIP_spec request_empty_forwarded = []
   \<and> getClientIP request_empty_forwarded \<noteq> Inr (getClientIP_spec request_empty_forwarded)"
  by (simp add: getClientIP_def getClientIP_spec_def request_empty_forwarded_def truthy_def trim_def is_whitespace_def)

theorem getClientIP_precedence_witness:
  "getClientIP request_all = Inr ''203.0.113.9''
  \<and> getClientIP request_empty_forwarded = Inr ''10.0.0.7''
  \<and> getClientIP request_none = Inr ''unknown''"
proof -
  have "getClientIP request_all = Inr (trim (takeWhile (\<lambda>c. c \<noteq> CHR '','') '' 203.0.113.9 , 10.0.0.1''))"
    using getClientIP_precedence[of request_all] by (simp add: request_all_def)
  moreover have "getClientIP request_empty_forwarded = Inr (trim ''10.0.0.7'')"
    using getClientIP_precedence[of request_empty_forwarded] 
    by (simp add: request_empty_forwarded_def truthy_def)
  moreover have "getClientIP request_none = Inr ''unknown''"
    using getClientIP_precedence[of request_none] 
    by (simp add: request_none_def truthy_def)
  ultimately show ?thesis
    by (simp add: trim_def is_whitespace_def)
qed

section \<open>Properties of the base32 encoding\<close>

lemma groups_of_eval:
  "groups_of n [] = []"
  "groups_of (numeral k) (x # xs) =
     take (numeral k) (x # xs) # groups_of (numeral k) (drop (numeral k) (x # xs))"
  by (simp_all add: groups_of.simps[of _ "[]"] groups_of.simps[of _ "x # xs"])

lemma groups_of_block:
  assumes "0 < n" "length xs = n"
  shows "groups_of n (xs @ ys) = xs # groups_of n ys"
proof -
  from assms have "xs \<noteq> []" by auto
  with assms show ?thesis by (subst groups_of.simps) simp
qed

text \<open>
  C9. The base32 encoding of the bytes 104, 101, 108, 108, 111 of the text \<open>hello\<close> is
  the lower-case string \<open>nbswy3dp\<close>, with no padding.
\<close>

theorem encodeBase32_hello: "encodeBase32 [104, 101, 108, 108, 111] = ''nbswy3dp''"
  by (simp add: encodeBase32_def bits_of_byte_def nat_of_bits_def pad_right_def
      base32_alphabet_def groups_of_eval)

lemma decodeBase32_secret:
  "decodeBase32 ''JBSWY3DPEHPK3PXP'' = Some [72, 101, 108, 108, 111, 33, 222, 173, 190, 239]"
  by (simp add: decodeBase32_def base32_value_def bits_of_value_def nat_of_bits_def
      groups_of_eval bit_Suc_0_iff)

section \<open>Properties of the keyed hash\<close>

lemma sha1_schedule_numeral:
  "sha1_schedule (numeral n) ws =
     sha1_schedule (pred_numeral n) (rotl 1 (ws ! 2 XOR ws ! 7 XOR ws ! 13 XOR ws ! 15) # ws)"
  by (simp add: numeral_eq_Suc)

lemma replicate_numeral_eval: "replicate (numeral n) x = x # replicate (pred_numeral n) x"
  by (simp add: numeral_eq_Suc)

lemmas sha1_block_eval = groups_of_eval sha1_schedule_numeral
  sha1_block_def sha1_f_def sha1_k_def rotl_def word_of_bytes_def

lemma length_bytes_of_counter: "length (bytes_of_counter w) = 8"
  by (simp add: bytes_of_counter_def)

lemma sha1_two_blocks:
  assumes "length xs = 64" "length ys \<le> 55"
  shows "sha1 (xs @ ys) =
     sha1_output (sha1_block (sha1_block sha1_init xs)
       (ys @ [0x80] @ replicate (55 - length ys) 0
          @ bytes_of_counter (of_nat (8 * (64 + length ys)))))"
proof -
  let ?tail = "ys @ [0x80] @ replicate (55 - length ys) 0
          @ bytes_of_counter (of_nat (8 * (64 + length ys)))"
  have m: "(119 - length (xs @ ys) mod 64) mod 64 = 55 - length ys"
    using assms by (simp add: mod_if)
  have pad: "sha1_pad (xs @ ys) = xs @ ?tail"
    unfolding sha1_pad_def m using assms(1) by simp
  have len: "length ?tail = 64"
    using assms(2) by (simp add: length_bytes_of_counter)
  have "groups_of 64 (xs @ ?tail) = xs # groups_of 64 (?tail @ [])"
    using groups_of_block[of 64 xs ?tail] assms(1) by simp
  also have "groups_of 64 (?tail @ []) = [?tail]"
    using groups_of_block[of 64 ?tail "[]"] len by (simp only: groups_of_eval(1))
  finally show ?thesis by (simp add: sha1_def pad)
qed

lemma length_sha1: "length (sha1 msg) = 20"
proof -
  obtain h0 h1 h2 h3 h4 where
    "foldl sha1_block sha1_init (groups_of 64 (sha1_pad msg)) = (h0, h1, h2, h3, h4)"
    by (metis prod_cases5)
  then show ?thesis by (simp add: sha1_def bytes_of_word_def)
qed

lemma length_hmac_sha1: "length (hmac_sha1 key msg) = 20"
  by (simp add: hmac_sha1_def length_sha1)

lemma hmac_sha1_short:
  assumes "length key \<le> 64" "length msg \<le> 55"
  shows "hmac_sha1 key msg =
     sha1_output (sha1_block (sha1_block sha1_init (map (\<lambda>b. b XOR 0x5C) (pad_right 64 0 key)))
       (sha1_output (sha1_block (sha1_block sha1_init (map (\<lambda>b. b XOR 0x36) (pad_right 64 0 key)))
            (msg @ [0x80] @ replicate (55 - length msg) 0
               @ bytes_of_counter (of_nat (8 * (64 + length msg)))))
        @ [0x80] @ replicate 35 0 @ bytes_of_counter (of_nat 672)))"
proof -
  have kb: "hmac_key_block key = pad_right 64 0 key"
    using assms(1) by (simp add: hmac_key_block_def)
  have lk: "length (pad_right 64 0 key) = 64"
    using assms(1) by (simp add: pad_right_def)
  have inner: "sha1 (map (\<lambda>b. b XOR 0x36) (pad_right 64 0 key) @ msg) =
      sha1_output (sha1_block (sha1_block sha1_init (map (\<lambda>b. b XOR 0x36) (pad_right 64 0 key)))
            (msg @ [0x80] @ replicate (55 - length msg) 0
               @ bytes_of_counter (of_nat (8 * (64 + length msg)))))"
    by (rule sha1_two_blocks) (simp_all add: lk assms(2))
  have li: "length (sha1 (map (\<lambda>b. b XOR 0x36) (pad_right 64 0 key) @ msg)) = 20"
    by (rule length_sha1)
  have "hmac_sha1 key msg = sha1 (map (\<lambda>b. b XOR 0x5C) (pad_right 64 0 key)
           @ sha1 (map (\<lambda>b. b XOR 0x36) (pad_right 64 0 key) @ msg))"
    by (simp add: hmac_sha1_def kb)
  also have "\<dots> = sha1_output (sha1_block (sha1_block sha1_init (map (\<lambda>b. b XOR 0x5C) (pad_right 64 0 key)))
       (sha1 (map (\<lambda>b. b XOR 0x36) (pad_right 64 0 key) @ msg)
        @ [0x80] @ replicate (55 - 20) 0 @ bytes_of_counter (of_nat (8 * (64 + 20)))))"
    using sha1_two_blocks[of "map (\<lambda>b. b XOR 0x5C) (pad_right 64 0 key)"
        "sha1 (map (\<lambda>b. b XOR 0x36) (pad_right 64 0 key) @ msg)"] lk li
    by simp
  finally show ?thesis by (simp add: inner)
qed

text \<open>
  The six compressions of HMAC-SHA-1 for the key that the secret \<open>JBSWY3DPEHPK3PXP\<close>
  decodes to and the counters 61831283 and 61831285: the two blocks of the padded key,
  and for each counter the block of the message and the block of the inner hash.
\<close>

lemma sha1_block_ipad:
  "sha1_block (0x67452301, 0xEFCDAB89, 0x98BADCFE, 0x10325476, 0xC3D2E1F0)
    [126, 83, 90, 90, 89, 23, 232, 155, 136, 217, 54, 54, 54, 54, 54, 54,
     54, 54, 54, 54, 54, 54, 54, 54, 54, 54, 54, 54, 54, 54, 54, 54,
     54, 54, 54, 54, 54, 54, 54, 54, 54, 54, 54, 54, 54, 54, 54, 54,
     54, 54, 54, 54, 54, 54, 54, 54, 54, 54, 54, 54, 54, 54, 54, 54] =
   (3715725260, 1380640354, 3878100862, 144215461, 2792695825)"
  by (simp add: sha1_block_eval)

lemma sha1_block_opad:
  "sha1_block (0x67452301, 0xEFCDAB89, 0x98BADCFE, 0x10325476, 0xC3D2E1F0)
    [20, 57, 48, 48, 51, 125, 130, 241, 226, 179, 92, 92, 92, 92, 92, 92,
     92, 92, 92, 92, 92, 92, 92, 92, 92, 92, 92, 92, 92, 92, 92, 92,
     92, 92, 92, 92, 92, 92, 92, 92, 92, 92, 92, 92, 92, 92, 92, 92,
     92, 92, 92, 92, 92, 92, 92, 92, 92, 92, 92, 92, 92, 92, 92, 92] =
   (2634400316, 2437370271, 3036113104, 1192652808, 2427902477)"
  by (simp add: sha1_block_eval)

lemma sha1_block_inner_a:
  "sha1_block (3715725260, 1380640354, 3878100862, 144215461, 2792695825)
    [0, 0, 0, 0, 3, 175, 120, 115, 128, 0, 0, 0, 0, 0, 0, 0,
     0, 0, 0, 0, 0, 0, 0, 0, 0, 0, 0, 0, 0, 0, 0, 0,
     0, 0, 0, 0, 0, 0, 0, 0, 0, 0, 0, 0, 0, 0, 0, 0,
     0, 0, 0, 0, 0, 0, 0, 0, 0, 0, 0, 0, 0, 0, 2, 64] =
   (2907153572, 4130569031, 2706479354, 796187075, 2753459119)"
  by (simp add: sha1_block_eval)

lemma sha1_block_outer_a:
  "sha1_block (2634400316, 2437370271, 3036113104, 1192652808, 2427902477)
    [173, 71, 164, 164, 246, 51, 123, 71, 161, 81, 152, 250, 47, 116, 217, 195,
     164, 30, 115, 175, 128, 0, 0, 0, 0, 0, 0, 0, 0, 0, 0, 0,
     0, 0, 0, 0, 0, 0, 0, 0, 0, 0, 0, 0, 0, 0, 0, 0,
     0, 0, 0, 0, 0, 0, 0, 0, 0, 0, 0, 0, 0, 0, 2, 160] =
   (2810676709, 3360377278, 436944730, 3868981463, 3192612898)"
  by (simp add: sha1_block_eval)

lemma sha1_block_inner_b:
  "sha1_block (3715725260, 1380640354, 3878100862, 144215461, 2792695825)
    [0, 0, 0, 0, 3, 175, 120, 117, 128, 0, 0, 0, 0, 0, 0, 0,
     0, 0, 0, 0, 0, 0, 0, 0, 0, 0, 0, 0, 0, 0, 0, 0,
     0, 0, 0, 0, 0, 0, 0, 0, 0, 0, 0, 0, 0, 0, 0, 0,
     0, 0, 0, 0, 0, 0, 0, 0, 0, 0, 0, 0, 0, 0, 2, 64] =
   (1492972540, 1340611970, 3186503879, 1163979523, 4002371398)"
  by (simp add: sha1_block_eval)

lemma sha1_block_outer_b:
  "sha1_block (2634400316, 2437370271, 3036113104, 1192652808, 2427902477)
    [88, 252, 243, 252, 79, 232, 29, 130, 189, 238, 48, 199, 69, 96, 235, 3,
     238, 143, 87, 70, 128, 0, 0, 0, 0, 0, 0, 0, 0, 0, 0, 0,
     0, 0, 0, 0, 0, 0, 0, 0, 0, 0, 0, 0, 0, 0, 0, 0,
     0, 0, 0, 0, 0, 0, 0, 0, 0, 0, 0, 0, 0, 0, 2, 160] =
   (2703629074, 3445911017, 1055457472, 1076038549, 1050863979)"
  by (simp add: sha1_block_eval)

lemma hmac_sha1_a:
  "hmac_sha1 [72, 101, 108, 108, 111, 33, 222, 173, 190, 239] [0, 0, 0, 0, 3, 175, 120, 115] =
     [167, 135, 133, 229, 200, 75, 73, 190, 26, 11, 63, 90, 230, 155, 248, 215, 190, 75, 104, 34]"
  by (simp add: hmac_sha1_short pad_right_def bytes_of_counter_def bytes_of_word_def
      replicate_numeral_eval sha1_init_def
      sha1_block_ipad sha1_block_opad sha1_block_inner_a sha1_block_outer_a)

lemma hmac_sha1_b:
  "hmac_sha1 [72, 101, 108, 108, 111, 33, 222, 173, 190, 239] [0, 0, 0, 0, 3, 175, 120, 117] =
     [161, 38, 27, 18, 205, 100, 109, 233, 62, 233, 0, 192, 64, 35, 11, 149, 62, 162, 233, 107]"
  by (simp add: hmac_sha1_short pad_right_def bytes_of_counter_def bytes_of_word_def
      replicate_numeral_eval sha1_init_def
      sha1_block_ipad sha1_block_opad sha1_block_inner_b sha1_block_outer_b)

text \<open>
  The hash of the text \<open>abc\<close>, the example of the standard of SHA-1.
\<close>

lemma sha1_abc:
  "sha1 [0x61, 0x62, 0x63] =
     [0xA9, 0x99, 0x3E, 0x36, 0x47, 0x06, 0x81, 0x6A, 0xBA, 0x3E,
      0x25, 0x71, 0x78, 0x50, 0xC2, 0x6C, 0x9C, 0xD0, 0xD8, 0x9D]"
  by (simp add: sha1_def sha1_pad_def sha1_init_def bytes_of_counter_def bytes_of_word_def
      replicate_numeral_eval sha1_block_eval)

text \<open>
  The first test vector of the standard of time-based one-time passwords: the key is
  the text \<open>12345678901234567890\<close> and the time is 59 s, in the step 1. The code of
  eight digits of the standard is 94287082, so the code of six digits is 287082.
\<close>

lemma sha1_block_ipad_rfc:
  "sha1_block (0x67452301, 0xEFCDAB89, 0x98BADCFE, 0x10325476, 0xC3D2E1F0)
    [7, 4, 5, 2, 3, 0, 1, 14, 15, 6, 7, 4, 5, 2, 3, 0,
     1, 14, 15, 6, 54, 54, 54, 54, 54, 54, 54, 54, 54, 54, 54, 54,
     54, 54, 54, 54, 54, 54, 54, 54, 54, 54, 54, 54, 54, 54, 54, 54,
     54, 54, 54, 54, 54, 54, 54, 54, 54, 54, 54, 54, 54, 54, 54, 54] =
   (3418885260, 4120502956, 3183003698, 3667247555, 4167577637)"
  by (simp add: sha1_block_eval)

lemma sha1_block_opad_rfc:
  "sha1_block (0x67452301, 0xEFCDAB89, 0x98BADCFE, 0x10325476, 0xC3D2E1F0)
    [109, 110, 111, 104, 105, 106, 107, 100, 101, 108, 109, 110, 111, 104, 105, 106,
     107, 100, 101, 108, 92, 92, 92, 92, 92, 92, 92, 92, 92, 92, 92, 92,
     92, 92, 92, 92, 92, 92, 92, 92, 92, 92, 92, 92, 92, 92, 92, 92,
     92, 92, 92, 92, 92, 92, 92, 92, 92, 92, 92, 92, 92, 92, 92, 92] =
   (2562571725, 1491106814, 2908544490, 985678603, 4262488101)"
  by (simp add: sha1_block_eval)

lemma sha1_block_inner_rfc:
  "sha1_block (3418885260, 4120502956, 3183003698, 3667247555, 4167577637)
    [0, 0, 0, 0, 0, 0, 0, 1, 128, 0, 0, 0, 0, 0, 0, 0,
     0, 0, 0, 0, 0, 0, 0, 0, 0, 0, 0, 0, 0, 0, 0, 0,
     0, 0, 0, 0, 0, 0, 0, 0, 0, 0, 0, 0, 0, 0, 0, 0,
     0, 0, 0, 0, 0, 0, 0, 0, 0, 0, 0, 0, 0, 0, 2, 64] =
   (2923006674, 3845772892, 1570953884, 2321626177, 2537110156)"
  by (simp add: sha1_block_eval)

lemma sha1_block_outer_rfc:
  "sha1_block (2562571725, 1491106814, 2908544490, 985678603, 4262488101)
    [174, 57, 138, 210, 229, 57, 214, 92, 93, 162, 218, 156, 138, 97, 52, 65,
     151, 57, 58, 140, 128, 0, 0, 0, 0, 0, 0, 0, 0, 0, 0, 0,
     0, 0, 0, 0, 0, 0, 0, 0, 0, 0, 0, 0, 0, 0, 0, 0,
     0, 0, 0, 0, 0, 0, 0, 0, 0, 0, 0, 0, 0, 0, 2, 160] =
   (1973717529, 3570131200, 1682868929, 964618868, 2049782699)"
  by (simp add: sha1_block_eval)

lemma hmac_sha1_rfc:
  "hmac_sha1 [49, 50, 51, 52, 53, 54, 55, 56, 57, 48, 49, 50, 51, 52, 53, 54, 55, 56, 57, 48]
     [0, 0, 0, 0, 0, 0, 0, 1] =
     [117, 164, 138, 25, 212, 203, 225, 0, 100, 78, 138, 193, 57, 126, 234, 116, 122, 45, 51, 171]"
  by (simp add: hmac_sha1_short pad_right_def bytes_of_counter_def bytes_of_word_def
      replicate_numeral_eval sha1_init_def
      sha1_block_ipad_rfc sha1_block_opad_rfc sha1_block_inner_rfc sha1_block_outer_rfc)

section \<open>Properties of the TOTP engine\<close>

lemma is_digit_char_of: "d < 10 \<Longrightarrow> is_digit (digits ! d)"
  unfolding is_digit_def by (rule nth_mem) (simp add: digits_def)

lemma decimal_digits: "\<forall>c\<in>set (decimal n). is_digit c"
proof (induction n rule: decimal.induct)
  case (1 n)
  show ?case
  proof (cases "n < 10")
    case True
    then show ?thesis by (subst decimal.simps) (simp add: is_digit_char_of)
  next
    case False
    with 1 show ?thesis by (subst decimal.simps) (simp add: is_digit_char_of)
  qed
qed

lemma length_decimal: "n < 10 ^ Suc k \<Longrightarrow> length (decimal n) \<le> Suc k"
proof (induction k arbitrary: n)
  case 0
  then show ?case by (subst decimal.simps) simp
next
  case (Suc k)
  show ?case
  proof (cases "n < 10")
    case True
    then show ?thesis by (subst decimal.simps) simp
  next
    case False
    from Suc.prems have "n div 10 < 10 ^ Suc k" by (simp add: less_mult_imp_div_less mult.commute)
    from Suc.IH[OF this] False show ?thesis by (subst decimal.simps) simp
  qed
qed

lemma decimal_nonempty: "decimal n \<noteq> []"
  by (subst decimal.simps) simp

lemma code_format:
  assumes "n < 1000000"
  shows "length (padStart 6 (CHR ''0'') (decimal n)) = 6"
    and "\<forall>c\<in>set (padStart 6 (CHR ''0'') (decimal n)). is_digit c"
proof -
  from assms have "n < 10 ^ Suc 5" by simp
  then have "length (decimal n) \<le> 6" using length_decimal[of n 5] by simp
  then show "length (padStart 6 (CHR ''0'') (decimal n)) = 6"
    by (simp add: padStart_def)
  have zero: "is_digit (CHR ''0'')" by (simp add: is_digit_def digits_def)
  have "set (padStart 6 (CHR ''0'') (decimal n)) \<subseteq> insert (CHR ''0'') (set (decimal n))"
    by (auto simp: padStart_def)
  then show "\<forall>c\<in>set (padStart 6 (CHR ''0'') (decimal n)). is_digit c"
    using decimal_digits[of n] zero by blast
qed

lemma dynamic_truncate_Some:
  assumes "20 \<le> length hs"
  shows "\<exists>v. dynamic_truncate hs = Some v"
proof -
  have "unat (last hs AND 0x0F) \<le> unat (0x0F :: byte)"
    by (rule word_and_le1 [THEN word_le_nat_alt [THEN iffD1]])
  then have "unat (last hs AND 0x0F) + 4 \<le> length hs" using assms by simp
  moreover from assms have "hs \<noteq> []" by auto
  ultimately show ?thesis by (simp add: dynamic_truncate_def Let_def)
qed

lemma generateCode_format:
  assumes "decodeBase32 secret = Some key" and "\<forall>m. 20 \<le> length (hmac key m)"
  shows "\<exists>v. generateCode hmac secret time =
             Inr (padStart 6 (CHR ''0'') (decimal (unat (v :: 32 word) mod 1000000)))"
proof -
  obtain v where "dynamic_truncate (hmac key (bytes_of_counter (word_of_int (timeCounter time)))) = Some v"
    using dynamic_truncate_Some assms(2) by blast
  with assms(1) show ?thesis by (auto simp: generateCode_def)
qed

lemma generateCode_counter:
  "timeCounter t = timeCounter t' \<Longrightarrow> generateCode hmac secret t = generateCode hmac secret t'"
  unfolding generateCode_def by (erule subst) (rule refl)

lemma generateCode_length:
  "generateCode hmac secret time = Inr code \<Longrightarrow> length code = 6 \<and> (\<forall>c\<in>set code. is_digit c)"
proof -
  assume "generateCode hmac secret time = Inr code"
  then obtain v :: "32 word" where "code = padStart 6 (CHR ''0'') (decimal (unat v mod 1000000))"
    by (auto simp: generateCode_def split: option.splits)
  then show ?thesis using code_format[of "unat v mod 1000000"] by simp
qed

lemma matches_any_iff:
  "matches_any hmac secret code ts \<longleftrightarrow> (\<exists>t\<in>set ts. generateCode hmac secret t = Inr code)"
  by (induction ts) auto

lemma set_window_times:
  "set (window_times now k) = {now + i * 30000 | i. - k \<le> i \<and> i \<le> k}"
  by (auto simp: window_times_def stepSeconds_def)

lemma validateCode_iff:
  assumes "decodeBase32 secret = Some key"
  shows "validateCode hmac secret code now k =
           Inr (\<exists>i. - k \<le> i \<and> i \<le> k \<and> generateCode hmac secret (now + i * 30000) = Inr code)"
  using assms by (auto simp: validateCode_def matches_any_iff set_window_times)

lemma timeCounter_eq: "timeCounter t = t div 30000"
proof -
  have "t div (1000 * 30) = t div 1000 div 30"
    by (rule zdiv_zmult2_eq) simp
  then show ?thesis by (simp add: timeCounter_def unixSeconds_def stepSeconds_def)
qed

lemma counter_within_25:
  "timeCounter t = timeCounter (t + 25000 - 30000) \<or> timeCounter t = timeCounter (t + 25000)"
proof (cases "5000 \<le> t mod 30000")
  case True
  have "t - 5000 = 30000 * (t div 30000) + (t mod 30000 - 5000)" by simp
  moreover have "0 \<le> t mod 30000 - 5000" using True by simp
  moreover have "t mod 30000 - 5000 < 30000"
    using pos_mod_bound[of 30000 t] by simp
  ultimately have "(t - 5000) div 30000 = t div 30000"
    by (rule int_div_pos_eq)
  then show ?thesis by (simp add: timeCounter_eq)
next
  case False
  have "t + 25000 = 30000 * (t div 30000) + (t mod 30000 + 25000)" by simp
  moreover have "0 \<le> t mod 30000 + 25000"
    using pos_mod_sign[of 30000 t] by simp
  moreover have "t mod 30000 + 25000 < 30000" using False by simp
  ultimately have "(t + 25000) div 30000 = t div 30000"
    by (rule int_div_pos_eq)
  then show ?thesis by (simp add: timeCounter_eq)
qed

lemma counter_after_95:
  assumes "- 1 \<le> i"
  shows "timeCounter t + 2 \<le> timeCounter (t + 95000 + i * 30000)"
proof -
  from assms have "t + 2 * 30000 \<le> t + 95000 + i * 30000" by simp
  then have "(t + 2 * 30000) div 30000 \<le> (t + 95000 + i * 30000) div 30000"
    by (rule zdiv_mono1) simp
  moreover have "(t + 2 * 30000) div 30000 = t div 30000 + 2"
    by simp
  ultimately show ?thesis by (simp only: timeCounter_eq)
qed

lemmas decimal_eval = decimal.simps[of "numeral n" for n] decimal.simps[of 0] decimal.simps[of 1]

lemma generateCode_a:
  "generateCode hmac_sha1 ''JBSWY3DPEHPK3PXP'' 1854938490000 = Inr ''945099''"
  by (simp add: generateCode_def decodeBase32_secret timeCounter_eq bytes_of_counter_def
      hmac_sha1_a dynamic_truncate_def word_of_bytes_def padStart_def decimal_eval digits_def)

lemma generateCode_b:
  "generateCode hmac_sha1 ''JBSWY3DPEHPK3PXP'' 1854938555000 = Inr ''945099''"
  by (simp add: generateCode_def decodeBase32_secret timeCounter_eq bytes_of_counter_def
      hmac_sha1_b dynamic_truncate_def word_of_bytes_def padStart_def decimal_eval digits_def)

lemma decodeBase32_rfc:
  "decodeBase32 ''GEZDGNBVGY3TQOJQGEZDGNBVGY3TQOJQ'' =
     Some [49, 50, 51, 52, 53, 54, 55, 56, 57, 48, 49, 50, 51, 52, 53, 54, 55, 56, 57, 48]"
  by (simp add: decodeBase32_def base32_value_def bits_of_value_def nat_of_bits_def
      groups_of_eval bit_Suc_0_iff)

lemma generateCode_rfc:
  "generateCode hmac_sha1 ''GEZDGNBVGY3TQOJQGEZDGNBVGY3TQOJQ'' 59000 = Inr ''287082''"
  by (simp add: generateCode_def decodeBase32_rfc timeCounter_eq bytes_of_counter_def
      hmac_sha1_rfc dynamic_truncate_def word_of_bytes_def padStart_def decimal_eval digits_def)

lemma truncate_31_bits:
  assumes "dynamic_truncate hs = Some v"
  shows "unat v < 2 ^ 31"
proof -
  have m7: "(0x7F :: byte) = mask 7"
    by (simp add: mask_eq_exp_minus_1)
  from assms obtain a b c d where v: "v = word_of_bytes [a AND mask 7, b, c, d]"
    by (auto simp: dynamic_truncate_def Let_def m7 split: if_splits)
  have "v AND mask 31 = v"
    unfolding v word_of_bytes_def
    by (rule bit_eqI) (auto simp: bit_simps dest: bit_imp_le_length)
  moreover have "v AND mask 31 < 2 ^ 31"
    by (rule and_mask_less') simp
  ultimately have "v < 2 ^ 31" by simp
  then show ?thesis by (simp add: word_less_nat_alt)
qed

lemma validateCode_same_time:
  assumes "decodeBase32 secret = Some key" "generateCode hmac secret time = Inr code"
  shows "validateCode hmac secret code time 1 = Inr True"
proof -
  have "- 1 \<le> (0::int) \<and> (0::int) \<le> 1 \<and> generateCode hmac secret (time + 0 * 30000) = Inr code"
    using assms(2) by simp
  then have "\<exists>i. - 1 \<le> i \<and> i \<le> 1 \<and> generateCode hmac secret (time + i * 30000) = Inr code"
    by (rule exI)
  then show ?thesis by (simp add: validateCode_iff[OF assms(1)])
qed

text \<open>
  C5. For a secret that decodes and a keyed hash whose values have at least 20 bytes,
  as those of HMAC with SHA-1 have, \<open>generateCode\<close> returns at every time the dynamic
  truncation of the hash, a number below \<open>2^31\<close>, reduced modulo \<open>10^6\<close> and written
  with six decimal digits, zeros first; and \<open>validateCode\<close> accepts that code at the
  time it was generated for.
\<close>

theorem generateCode_six_digits:
  assumes "decodeBase32 secret = Some key" and "\<forall>m. 20 \<le> length (hmac key m)"
  shows "\<exists>v code.
      dynamic_truncate (hmac key (bytes_of_counter (word_of_int (timeCounter time)))) = Some v
    \<and> unat v < 2 ^ 31
    \<and> code = padStart 6 (CHR ''0'') (decimal (unat v mod 1000000))
    \<and> generateCode hmac secret time = Inr code
    \<and> length code = 6 \<and> (\<forall>c\<in>set code. is_digit c)
    \<and> validateCode hmac secret code time 1 = Inr True"
proof -
  obtain v where v: "dynamic_truncate (hmac key (bytes_of_counter (word_of_int (timeCounter time)))) = Some v"
    using dynamic_truncate_Some assms(2) by blast
  let ?code = "padStart 6 (CHR ''0'') (decimal (unat v mod 1000000))"
  have g: "generateCode hmac secret time = Inr ?code"
    using assms(1) v by (simp add: generateCode_def)
  have "length ?code = 6 \<and> (\<forall>c\<in>set ?code. is_digit c)"
    using g by (rule generateCode_length)
  moreover have "validateCode hmac secret ?code time 1 = Inr True"
    using assms(1) g by (rule validateCode_same_time)
  moreover have "unat v < 2 ^ 31" using v by (rule truncate_31_bits)
  ultimately show ?thesis using v g by blast
qed

theorem generateCode_six_digits_witness:
  "decodeBase32 ''JBSWY3DPEHPK3PXP'' = Some [72, 101, 108, 108, 111, 33, 222, 173, 190, 239]
   \<and> generateCode hmac_sha1 ''JBSWY3DPEHPK3PXP'' 1854938490000 = Inr ''945099''
   \<and> validateCode hmac_sha1 ''JBSWY3DPEHPK3PXP'' ''945099'' 1854938490000 1 = Inr True"
proof -
  have len: "\<forall>m. 20 \<le> length (hmac_sha1 [72, 101, 108, 108, 111, 33, 222, 173, 190, 239] m)"
    by (simp add: length_hmac_sha1)
  from generateCode_six_digits [of "''JBSWY3DPEHPK3PXP''"
      "[72, 101, 108, 108, 111, 33, 222, 173, 190, 239]" hmac_sha1 1854938490000]
  show ?thesis
    using len by (auto simp: decodeBase32_secret generateCode_a)
qed

text \<open>
  C4, as amended. For a secret that decodes, \<open>validateCode\<close> with the tolerance \<open>k\<close>
  returns true exactly when the code is the code of one of the times
  \<open>now + i\<cdot>30s\<close> with \<open>-k \<le> i \<le> k\<close>. A code generated for the time \<open>t\<close> is accepted at
  \<open>t + 25s\<close> with the tolerance 1. At \<open>t + 95s\<close> the code is compared with the codes of
  \<open>t + 65s\<close>, \<open>t + 95s\<close> and \<open>t + 125s\<close> only, each of a step at least two steps after
  the step of \<open>t\<close>: it is rejected when it differs from these three codes, and accepted
  when it is one of them. A code that is not of six decimal digits, the empty one
  among them, is rejected. The result is always a value.
\<close>

theorem validateCode_window:
  assumes "decodeBase32 secret = Some key"
  shows "validateCode hmac secret code now k =
           Inr (\<exists>i. - k \<le> i \<and> i \<le> k \<and> generateCode hmac secret (now + i * 30000) = Inr code)
    \<and> (generateCode hmac secret t = Inr code \<longrightarrow>
          validateCode hmac secret code (t + 25000) 1 = Inr True)
    \<and> validateCode hmac secret code (t + 95000) 1 =
          Inr (generateCode hmac secret (t + 65000) = Inr code
             \<or> generateCode hmac secret (t + 95000) = Inr code
             \<or> generateCode hmac secret (t + 125000) = Inr code)
    \<and> timeCounter t + 2 \<le> timeCounter (t + 65000)
    \<and> timeCounter t + 2 \<le> timeCounter (t + 95000)
    \<and> timeCounter t + 2 \<le> timeCounter (t + 125000)
    \<and> (length code \<noteq> 6 \<or> (\<exists>c\<in>set code. \<not> is_digit c) \<longrightarrow>
          validateCode hmac secret code now k = Inr False)"
proof -
  note iff = validateCode_iff[OF assms]
  have b: "validateCode hmac secret code (t + 25000) 1 = Inr True"
    if g: "generateCode hmac secret t = Inr code"
  proof -
    from counter_within_25[of t]
    have "generateCode hmac secret (t + 25000 + (- 1) * 30000) = Inr code
        \<or> generateCode hmac secret (t + 25000 + 0 * 30000) = Inr code"
      using g generateCode_counter[of t "t + 25000 - 30000" hmac secret]
        generateCode_counter[of t "t + 25000" hmac secret] by auto
    then have "\<exists>i. - 1 \<le> i \<and> i \<le> 1 \<and> generateCode hmac secret (t + 25000 + i * 30000) = Inr code"
    proof
      assume "generateCode hmac secret (t + 25000 + (- 1) * 30000) = Inr code"
      then show ?thesis by (intro exI[of _ "- 1"]) simp
    next
      assume "generateCode hmac secret (t + 25000 + 0 * 30000) = Inr code"
      then show ?thesis by (intro exI[of _ 0]) simp
    qed
    then show ?thesis by (simp add: iff)
  qed
  have c: "validateCode hmac secret code (t + 95000) 1 =
          Inr (generateCode hmac secret (t + 65000) = Inr code
             \<or> generateCode hmac secret (t + 95000) = Inr code
             \<or> generateCode hmac secret (t + 125000) = Inr code)"
  proof -
    have tri: "(\<exists>i::int. - 1 \<le> i \<and> i \<le> 1 \<and> P i) \<longleftrightarrow> P (- 1) \<or> P 0 \<or> P 1" for P
    proof
      assume "\<exists>i::int. - 1 \<le> i \<and> i \<le> 1 \<and> P i"
      then obtain i :: int where i: "- 1 \<le> i" "i \<le> 1" "P i" by blast
      then have "i = - 1 \<or> i = 0 \<or> i = 1" by arith
      with i(3) show "P (- 1) \<or> P 0 \<or> P 1" by blast
    next
      assume "P (- 1) \<or> P 0 \<or> P 1"
      then show "\<exists>i::int. - 1 \<le> i \<and> i \<le> 1 \<and> P i"
      proof (elim disjE)
        assume "P (- 1)" then show ?thesis by (intro exI[of _ "- 1"]) simp
      next
        assume "P 0" then show ?thesis by (intro exI[of _ 0]) simp
      next
        assume "P 1" then show ?thesis by (intro exI[of _ 1]) simp
      qed
    qed
    show ?thesis
      unfolding iff tri by (simp add: add.commute)
  qed
  have d: "validateCode hmac secret code now k = Inr False"
    if "length code \<noteq> 6 \<or> (\<exists>c\<in>set code. \<not> is_digit c)"
    using that generateCode_length[of hmac secret _ code] by (auto simp: iff)
  have e: "timeCounter t + 2 \<le> timeCounter (t + 65000)"
    "timeCounter t + 2 \<le> timeCounter (t + 95000)"
    "timeCounter t + 2 \<le> timeCounter (t + 125000)"
    using counter_after_95[of "- 1" t] counter_after_95[of 0 t] counter_after_95[of 1 t]
    by (simp_all add: add.commute)
  show ?thesis using iff b c d e by blast
qed

text \<open>
  C4, as stated, fails for the secret \<open>JBSWY3DPEHPK3PXP\<close> and the time
  1854938490 s, with HMAC-SHA-1 as the keyed hash: the code of that time is 945099,
  the code of the step two steps later is 945099 too, and so the code generated for
  \<open>t\<close> is accepted at \<open>t + 95s\<close>.
\<close>

theorem validateCode_counterexample:
  "generateCode hmac_sha1 ''JBSWY3DPEHPK3PXP'' 1854938490000 = Inr ''945099''
   \<and> validateCode hmac_sha1 ''JBSWY3DPEHPK3PXP'' ''945099'' (1854938490000 + 95000) 1 = Inr True"
  by (simp add: generateCode_a generateCode_b validateCode_def decodeBase32_secret
      window_times_def stepSeconds_def upto.simps)

theorem validateCode_window_witness:
  "validateCode hmac_sha1 ''JBSWY3DPEHPK3PXP'' ''945099'' (1854938490000 + 25000) 1 = Inr True
   \<and> validateCode hmac_sha1 ''JBSWY3DPEHPK3PXP'' [] 1854938490000 1 = Inr False"
proof -
  from validateCode_window [OF decodeBase32_secret, of hmac_sha1 "''945099''" 0 1 1854938490000]
  have "generateCode hmac_sha1 ''JBSWY3DPEHPK3PXP'' 1854938490000 = Inr ''945099'' \<longrightarrow>
      validateCode hmac_sha1 ''JBSWY3DPEHPK3PXP'' ''945099'' (1854938490000 + 25000) 1 = Inr True"
    by blast
  moreover
  from validateCode_window [OF decodeBase32_secret, of hmac_sha1 "[]" 1854938490000 1 0]
  have "length ([] :: string) \<noteq> 6 \<or> (\<exists>c\<in>set ([] :: string). \<not> is_digit c) \<longrightarrow>
      validateCode hmac_sha1 ''JBSWY3DPEHPK3PXP'' [] 1854938490000 1 = Inr False"
    by blast
  ultimately show ?thesis
    using generateCode_a by simp
qed

section \<open>Properties of the CSRF guard\<close>

text \<open>
  C3. \<open>validateCSRFToken\<close> returns true exactly when the cookie holds a token that is
  not empty and the candidate is that same token, where the candidate is the value of
  the header when the header is present and not empty, and otherwise the value of the
  field of the form data. With no cookie, no header and no field, a mismatch or an
  empty value it returns false. It returns a truth value in every case.
\<close>

theorem validateCSRFToken_iff:
  "validateCSRFToken token_name header_name cookies request formData \<longleftrightarrow>
     (\<exists>tok. tok \<noteq> [] \<and> cookies token_name = Some tok \<and>
        (headers request header_name = Some tok \<or>
         truthy (headers request header_name) = None \<and>
           (\<exists>fd. formData = Some fd \<and> fd token_name = Some tok)))"
  by (auto simp: validateCSRFToken_def getCSRFToken_def truthy_def Let_def
      split: option.splits if_splits)

theorem validateCSRFToken_iff_witness:
  "validateCSRFToken ''csrf-token'' ''x-csrf-token'' csrf_cookies request_csrf_header None
   \<and> validateCSRFToken ''csrf-token'' ''x-csrf-token'' csrf_cookies request_none (Some csrf_form)
   \<and> \<not> validateCSRFToken ''csrf-token'' ''x-csrf-token'' csrf_cookies request_csrf_invalid None
   \<and> \<not> validateCSRFToken ''csrf-token'' ''x-csrf-token'' Map.empty request_csrf_header None"
  using validateCSRFToken_iff [of "''csrf-token''" "''x-csrf-token''" csrf_cookies
      request_csrf_header None]
    validateCSRFToken_iff [of "''csrf-token''" "''x-csrf-token''" csrf_cookies
      request_none "Some csrf_form"]
    validateCSRFToken_iff [of "''csrf-token''" "''x-csrf-token''" csrf_cookies
      request_csrf_invalid None]
    validateCSRFToken_iff [of "''csrf-token''" "''x-csrf-token''" Map.empty
      request_csrf_header None]
  by (simp add: csrf_cookies_def request_csrf_header_def request_none_def csrf_form_def
      request_csrf_invalid_def truthy_def)

end
